theory Spec2Isabelle
  imports Main "HOL-Library.Multiset"
begin

section \<open>Data model\<close>

text \<open>
  Instants of Go's \<^verbatim>\<open>time.Time\<close>, counted from the zero value \<^verbatim>\<open>time.Time{}\<close>
  (1 January of year 1, UTC). \<^verbatim>\<open>Before\<close> and \<^verbatim>\<open>After\<close> compare instants.
\<close>

type_synonym Time = int

definition zeroTime :: Time where
  "zeroTime = 0"

definition Before :: "Time \<Rightarrow> Time \<Rightarrow> bool" where
  "Before t u = (t < u)"

definition After :: "Time \<Rightarrow> Time \<Rightarrow> bool" where
  "After t u = (u < t)"

text \<open>
  Modelled from the spec: the declarations of the types \<^verbatim>\<open>WaitingListEntry\<close> and
  \<^verbatim>\<open>Ambulance\<close> are not among the sources. The fields are those of the data model
  (section 3 of the specification) and those the handlers read and write. The fields
  named \<^verbatim>\<open>Id\<close> carry a suffix, since a record field is a constant of its own and
  \<open>Id\<close> is the identity relation of HOL.
\<close>

record WaitingListEntry =
  Id_entry :: string
  PatientId :: string
  WaitingSince :: Time
  EstimatedDurationMinutes :: int

record Ambulance =
  Id_ambulance :: string
  Name :: string
  WaitingList :: "WaitingListEntry list"

text \<open>The uniqueness invariant of a waiting list (section 3 of the specification).\<close>

definition uniqueEntries :: "WaitingListEntry list \<Rightarrow> bool" where
  "uniqueEntries entries =
     (distinct (map Id_entry entries) \<and> distinct (map PatientId entries))"

section \<open>Library functions the handlers call\<close>

text \<open>
  \<^verbatim>\<open>slices.IndexFunc(s, f)\<close>: the first index whose element satisfies \<open>f\<close>, or \<open>-1\<close>.
\<close>

fun IndexFunc :: "'a list \<Rightarrow> ('a \<Rightarrow> bool) \<Rightarrow> int" where
  "IndexFunc [] f = - 1"
| "IndexFunc (x # xs) f =
     (if f x then 0
      else (let i = IndexFunc xs f in if i < 0 then - 1 else i + 1))"

text \<open>The status codes of \<^verbatim>\<open>net/http\<close> the handlers answer with.\<close>

definition StatusOK :: int where "StatusOK = 200"
definition StatusNoContent :: int where "StatusNoContent = 204"
definition StatusBadRequest :: int where "StatusBadRequest = 400"
definition StatusNotFound :: int where "StatusNotFound = 404"
definition StatusConflict :: int where "StatusConflict = 409"
definition StatusInternalServerError :: int where "StatusInternalServerError = 500"

section \<open>Waiting list reconciler\<close>

text \<open>
  The handlers call the method \<^verbatim>\<open>reconcileWaitingList\<close> of \<^verbatim>\<open>Ambulance\<close>, which is not
  among the sources. They take it as the parameter \<open>reconcileWaitingList\<close>, a function on
  the waiting list of the aggregate (specification, 4.3: a pure function over the
  in-memory list).
\<close>

type_synonym reconciler = "WaitingListEntry list \<Rightarrow> WaitingListEntry list"

text \<open>
  Modelled from the spec: \<^verbatim>\<open>reconcileWaitingList\<close> itself. The specification (4.3) asks
  for a pure function that re-sorts the list into a deterministic order, names the
  arrival time as the ordering key, and lets only the order and derived fields change.
  The model is the stable sort by \<open>WaitingSince\<close>; the entries of the data model have no
  derived field.
\<close>

definition Reconcile :: reconciler where
  "Reconcile entries = sort_key WaitingSince entries"

text \<open>
  What the handlers need of a reconciler: the reconciled list has the entries of the
  list it was given, in some order (specification, 4.3: only the order changes).
\<close>

definition reorders :: "reconciler \<Rightarrow> bool" where
  "reorders reconcileWaitingList =
     (\<forall>entries. mset (reconcileWaitingList entries) = mset entries)"

section \<open>Waiting list operations\<close>

text \<open>
  What a handler hands back to \<^verbatim>\<open>updateAmbulanceFunc\<close>: the response content is a
  \<^verbatim>\<open>gin.H\<close> with status, message and possibly the binding error, an entry, a list of
  entries, or nil.
\<close>

datatype response =
    H int string "string option"
  | Entry WaitingListEntry
  | Entries "WaitingListEntry list"
  | Nil_response

text \<open>
  A handler returns the aggregate to persist (nil when nothing is to be written), the
  response content and the status code; an index out of range is a run-time panic.
\<close>

datatype outcome =
    Return "Ambulance option" response int
  | Panic

text \<open>
  The defaults of \<^verbatim>\<open>CreateWaitingListEntry\<close>, in the order of the source. \<open>newId\<close> is
  the string \<^verbatim>\<open>uuid.NewString()\<close> returns; \<open>now1\<close> and \<open>now2\<close> are the two readings of
  \<^verbatim>\<open>time.Now()\<close>, the first in the comparison and the second in the assignment.
\<close>

definition applyDefaults ::
  "string \<Rightarrow> Time \<Rightarrow> Time \<Rightarrow> WaitingListEntry \<Rightarrow> WaitingListEntry" where
  "applyDefaults newId now1 now2 entry0 =
     (let entry1 = (if Id_entry entry0 = '''' \<or> Id_entry entry0 = ''@new''
                    then entry0\<lparr>Id_entry := newId\<rparr> else entry0);
          entry2 = (if Before (WaitingSince entry1) now1
                    then entry1\<lparr>WaitingSince := now2\<rparr> else entry1);
          entry3 = (if EstimatedDurationMinutes entry2 \<le> 0
                    then entry2\<lparr>EstimatedDurationMinutes := 15\<rparr> else entry2)
      in entry3)"

text \<open>
  \<^verbatim>\<open>CreateWaitingListEntry\<close>. The request body is the result of \<^verbatim>\<open>ShouldBindJSON\<close>:
  the error text, or the decoded entry, whose absent fields have Go's zero values.
\<close>

definition CreateWaitingListEntry ::
  "reconciler \<Rightarrow> string \<Rightarrow> Time \<Rightarrow> Time \<Rightarrow> string + WaitingListEntry \<Rightarrow> Ambulance
     \<Rightarrow> outcome" where
  "CreateWaitingListEntry reconcileWaitingList newId now1 now2 body ambulance =
     (case body of
        Inl err \<Rightarrow>
          Return None (H StatusBadRequest ''Invalid request body'' (Some err)) StatusBadRequest
      | Inr entry0 \<Rightarrow>
          if PatientId entry0 = '''' then
            Return None (H StatusBadRequest ''Patient ID is required'' None) StatusBadRequest
          else
            let entry = applyDefaults newId now1 now2 entry0;
                conflictIndx = IndexFunc (WaitingList ambulance)
                  (\<lambda>waiting. Id_entry entry = Id_entry waiting
                     \<or> PatientId entry = PatientId waiting)
            in
              if conflictIndx \<ge> 0 then
                Return None (H StatusConflict ''Entry already exists'' None) StatusConflict
              else
                let ambulance1 = ambulance\<lparr>WaitingList := WaitingList ambulance @ [entry]\<rparr>;
                    ambulance2 = ambulance1\<lparr>WaitingList :=
                      reconcileWaitingList (WaitingList ambulance1)\<rparr>;
                    entryIndx = IndexFunc (WaitingList ambulance2)
                      (\<lambda>waiting. Id_entry entry = Id_entry waiting)
                in
                  if entryIndx < 0 then
                    Return None (H StatusInternalServerError ''Failed to save entry'' None)
                      StatusInternalServerError
                  else
                    Return (Some ambulance2)
                      (Entry (WaitingList ambulance2 ! nat entryIndx)) StatusOK)"

text \<open>\<^verbatim>\<open>DeleteWaitingListEntry\<close>; \<open>entryId\<close> is the path parameter.\<close>

definition DeleteWaitingListEntry :: "reconciler \<Rightarrow> string \<Rightarrow> Ambulance \<Rightarrow> outcome" where
  "DeleteWaitingListEntry reconcileWaitingList entryId ambulance =
     (if entryId = '''' then
        Return None (H StatusBadRequest ''Entry ID is required'' None) StatusBadRequest
      else
        let entryIndx = IndexFunc (WaitingList ambulance)
              (\<lambda>waiting. entryId = Id_entry waiting)
        in
          if entryIndx < 0 then
            Return None (H StatusNotFound ''Entry not found'' None) StatusNotFound
          else
            let ambulance1 = ambulance\<lparr>WaitingList :=
                  take (nat entryIndx) (WaitingList ambulance)
                  @ drop (nat entryIndx + 1) (WaitingList ambulance)\<rparr>;
                ambulance2 = ambulance1\<lparr>WaitingList :=
                  reconcileWaitingList (WaitingList ambulance1)\<rparr>
            in Return (Some ambulance2) Nil_response StatusNoContent)"

text \<open>\<^verbatim>\<open>GetWaitingListEntries\<close>; a nil slice and an empty one are both the empty list.\<close>

definition GetWaitingListEntries :: "Ambulance \<Rightarrow> outcome" where
  "GetWaitingListEntries ambulance =
     Return None (Entries (WaitingList ambulance)) StatusOK"

text \<open>\<^verbatim>\<open>GetWaitingListEntry\<close>.\<close>

definition GetWaitingListEntry :: "string \<Rightarrow> Ambulance \<Rightarrow> outcome" where
  "GetWaitingListEntry entryId ambulance =
     (if entryId = '''' then
        Return None (H StatusBadRequest ''Entry ID is required'' None) StatusBadRequest
      else
        let entryIndx = IndexFunc (WaitingList ambulance)
              (\<lambda>waiting. entryId = Id_entry waiting)
        in
          if entryIndx < 0 then
            Return None (H StatusNotFound ''Entry not found'' None) StatusNotFound
          else
            Return None (Entry (WaitingList ambulance ! nat entryIndx)) StatusOK)"

text \<open>
  The four assignments of \<^verbatim>\<open>UpdateWaitingListEntry\<close> to the entry at \<open>entryIndx\<close>, in
  the order of the source; each is guarded by the supplied value.
\<close>

definition overwriteFields :: "WaitingListEntry \<Rightarrow> WaitingListEntry \<Rightarrow> WaitingListEntry" where
  "overwriteFields entry stored =
     (let s1 = (if PatientId entry \<noteq> '''' then stored\<lparr>PatientId := PatientId entry\<rparr>
                else stored);
          s2 = (if Id_entry entry \<noteq> '''' then s1\<lparr>Id_entry := Id_entry entry\<rparr> else s1);
          s3 = (if After (WaitingSince entry) zeroTime
                then s2\<lparr>WaitingSince := WaitingSince entry\<rparr> else s2);
          s4 = (if EstimatedDurationMinutes entry > 0
                then s3\<lparr>EstimatedDurationMinutes := EstimatedDurationMinutes entry\<rparr>
                else s3)
      in s4)"

text \<open>
  \<^verbatim>\<open>UpdateWaitingListEntry\<close>. The entry returned is read at \<open>entryIndx\<close> from the
  reconciled list; the index was computed before the reconciliation.
\<close>

definition UpdateWaitingListEntry ::
  "reconciler \<Rightarrow> string + WaitingListEntry \<Rightarrow> string \<Rightarrow> Ambulance \<Rightarrow> outcome" where
  "UpdateWaitingListEntry reconcileWaitingList body entryId ambulance =
     (case body of
        Inl err \<Rightarrow>
          Return None (H StatusBadRequest ''Invalid request body'' (Some err)) StatusBadRequest
      | Inr entry \<Rightarrow>
          if entryId = '''' then
            Return None (H StatusBadRequest ''Entry ID is required'' None) StatusBadRequest
          else
            let entryIndx = IndexFunc (WaitingList ambulance)
                  (\<lambda>waiting. entryId = Id_entry waiting)
            in
              if entryIndx < 0 then
                Return None (H StatusNotFound ''Entry not found'' None) StatusNotFound
              else
                let i = nat entryIndx;
                    ambulance1 = ambulance\<lparr>WaitingList :=
                      (WaitingList ambulance)
                        [i := overwriteFields entry (WaitingList ambulance ! i)]\<rparr>;
                    ambulance2 = ambulance1\<lparr>WaitingList :=
                      reconcileWaitingList (WaitingList ambulance1)\<rparr>
                in
                  if i < length (WaitingList ambulance2) then
                    Return (Some ambulance2) (Entry (WaitingList ambulance2 ! i)) StatusOK
                  else Panic)"

section \<open>Document store\<close>

text \<open>
  The errors of the store: \<^verbatim>\<open>ErrNotFound\<close>, \<^verbatim>\<open>ErrConflict\<close>, and any other error that
  the driver returns (connection failure, deadline exceeded, decoding failure), with
  its text.
\<close>

datatype db_error = ErrNotFound | ErrConflict | ErrDriver string

text \<open>The handle \<^verbatim>\<open>*mongo.Client\<close>.\<close>

type_synonym Client = nat

text \<open>
  What the calls of the MongoDB driver answer during one operation, apart from the
  documents themselves: the result of \<^verbatim>\<open>mongo.Connect\<close>, an error of \<^verbatim>\<open>FindOne\<close> other
  than \<^verbatim>\<open>mongo.ErrNoDocuments\<close>, an error of \<^verbatim>\<open>Decode\<close>, an error of \<^verbatim>\<open>ReplaceOne\<close>.
  An operation without transport failure has no error in any of them.
\<close>

record driver =
  mongo_Connect :: "string + Client"
  findErr :: "string option"
  decodeErr :: "string option"
  replaceErr :: "string option"

text \<open>
  The state an operation of \<^verbatim>\<open>mongoSvc\<close> works on: the cached handle \<^verbatim>\<open>this.client\<close> and
  the documents of the collection, in the order of the collection.
\<close>

record 'd store =
  client :: "Client option"
  documents :: "'d list"

text \<open>
  \<^verbatim>\<open>connect\<close> run by one caller alone: the optimistic check, the check under the lock,
  then \<^verbatim>\<open>mongo.Connect\<close>; the handle is stored on success only.
\<close>

definition connect :: "driver \<Rightarrow> 'd store \<Rightarrow> (string + Client) \<times> 'd store" where
  "connect drv s =
     (case client s of
        Some c \<Rightarrow> (Inr c, s)
      | None \<Rightarrow>
          (case client s of
             Some c \<Rightarrow> (Inr c, s)
           | None \<Rightarrow>
               (case mongo_Connect drv of
                  Inl err \<Rightarrow> (Inl err, s)
                | Inr c \<Rightarrow> (Inr c, s\<lparr>client := Some c\<rparr>))))"

text \<open>
  The driver's \<^verbatim>\<open>FindOne\<close> with the filter \<^verbatim>\<open>{id: id}\<close>: the first document of the
  collection whose field \<^verbatim>\<open>id\<close> is \<open>docId\<close>, the argument \<^verbatim>\<open>id\<close> of the operation;
  \<open>idOf\<close> reads that field of a document.
\<close>

datatype find_error = ErrNoDocuments | FindFailed string

definition FindOne ::
  "driver \<Rightarrow> ('d \<Rightarrow> string) \<Rightarrow> string \<Rightarrow> 'd list \<Rightarrow> find_error + 'd" where
  "FindOne drv idOf docId docs =
     (case findErr drv of
        Some err \<Rightarrow> Inl (FindFailed err)
      | None \<Rightarrow>
          (case find (\<lambda>d. idOf d = docId) docs of
             None \<Rightarrow> Inl ErrNoDocuments
           | Some d \<Rightarrow> Inr d))"

text \<open>
  The driver's \<^verbatim>\<open>ReplaceOne\<close> with the same filter: the first matching document is
  replaced by the replacement; without a match nothing changes and no error is returned.
\<close>

fun replaceFirst :: "('d \<Rightarrow> bool) \<Rightarrow> 'd \<Rightarrow> 'd list \<Rightarrow> 'd list" where
  "replaceFirst p r [] = []"
| "replaceFirst p r (d # ds) = (if p d then r # ds else d # replaceFirst p r ds)"

definition ReplaceOne ::
  "driver \<Rightarrow> ('d \<Rightarrow> string) \<Rightarrow> string \<Rightarrow> 'd \<Rightarrow> 'd list \<Rightarrow> string + 'd list" where
  "ReplaceOne drv idOf docId document docs =
     (case replaceErr drv of
        Some err \<Rightarrow> Inl err
      | None \<Rightarrow> Inr (replaceFirst (\<lambda>d. idOf d = docId) document docs))"

text \<open>\<^verbatim>\<open>FindDocument\<close>.\<close>

definition FindDocument ::
  "driver \<Rightarrow> ('d \<Rightarrow> string) \<Rightarrow> string \<Rightarrow> 'd store \<Rightarrow> (db_error + 'd) \<times> 'd store" where
  "FindDocument drv idOf docId s =
     (case connect drv s of
        (Inl err, s1) \<Rightarrow> (Inl (ErrDriver err), s1)
      | (Inr c, s1) \<Rightarrow>
          (case FindOne drv idOf docId (documents s1) of
             Inl ErrNoDocuments \<Rightarrow> (Inl ErrNotFound, s1)
           | Inl (FindFailed err) \<Rightarrow> (Inl (ErrDriver err), s1)
           | Inr d \<Rightarrow>
               (case decodeErr drv of
                  Some err \<Rightarrow> (Inl (ErrDriver err), s1)
                | None \<Rightarrow> (Inr d, s1))))"

text \<open>
  \<^verbatim>\<open>UpdateDocument\<close>: the error returned (\<open>None\<close> is Go's nil) and the state afterwards.
\<close>

definition UpdateDocument ::
  "driver \<Rightarrow> ('d \<Rightarrow> string) \<Rightarrow> string \<Rightarrow> 'd \<Rightarrow> 'd store \<Rightarrow> db_error option \<times> 'd store" where
  "UpdateDocument drv idOf docId document s =
     (case connect drv s of
        (Inl err, s1) \<Rightarrow> (Some (ErrDriver err), s1)
      | (Inr c, s1) \<Rightarrow>
          (case FindOne drv idOf docId (documents s1) of
             Inl ErrNoDocuments \<Rightarrow> (Some ErrNotFound, s1)
           | Inl (FindFailed err) \<Rightarrow> (Some (ErrDriver err), s1)
           | Inr found \<Rightarrow>
               (case ReplaceOne drv idOf docId document (documents s1) of
                  Inl err \<Rightarrow> (Some (ErrDriver err), s1)
                | Inr docs \<Rightarrow> (None, s1\<lparr>documents := docs\<rparr>))))"

text \<open>An operation without transport failure.\<close>

definition noTransportFailure :: "driver \<Rightarrow> bool" where
  "noTransportFailure drv =
     ((case mongo_Connect drv of Inl err \<Rightarrow> False | Inr c \<Rightarrow> True)
      \<and> findErr drv = None \<and> decodeErr drv = None
      \<and> replaceErr drv = None)"

section \<open>Connection manager under concurrent callers\<close>

text \<open>
  \<^verbatim>\<open>connect\<close> run by many callers at once. Each caller is at one of the points of
  \<^verbatim>\<open>connect\<close> where it touches the state it shares with the others: the optimistic
  \<^verbatim>\<open>this.client.Load()\<close>, \<^verbatim>\<open>this.clientLock.Lock()\<close>, the second \<^verbatim>\<open>Load\<close> under the lock,
  \<^verbatim>\<open>mongo.Connect\<close>, \<^verbatim>\<open>this.client.Store(client)\<close>, and the deferred \<^verbatim>\<open>Unlock\<close>, which
  runs once the values to return are fixed. The atomic pointer and the mutex make each
  of these one indivisible step; an execution is an interleaving of the callers' steps.
\<close>

datatype pc =
    AtLoad
  | AtLock
  | AtLockedLoad
  | AtConnect
  | AtStore Client
  | AtUnlock "string + Client"
  | Returned "string + Client"

text \<open>
  The shared state: the cached handle, the holder of the mutex, the point each caller is
  at, the number of calls of \<^verbatim>\<open>mongo.Connect\<close> so far, and the handles it has
  constructed. The handle constructed by call number \<open>k\<close> is \<open>k\<close>, so that handles of
  different constructions differ.
\<close>

record manager =
  cached :: "Client option"
  lockedBy :: "nat option"
  callers :: "nat \<Rightarrow> pc"
  calls :: nat
  constructed :: "Client list"

definition manager_init :: manager where
  "manager_init =
     \<lparr>cached = None, lockedBy = None, callers = (\<lambda>t. AtLoad), calls = 0, constructed = []\<rparr>"

text \<open>
  One step of caller \<open>t\<close>. \<open>connectErr k\<close> is the error of call number \<open>k\<close> of
  \<^verbatim>\<open>mongo.Connect\<close>, if it fails. A caller that finds the mutex held does not move.
\<close>

definition connect_step :: "(nat \<Rightarrow> string option) \<Rightarrow> nat \<Rightarrow> manager \<Rightarrow> manager" where
  "connect_step connectErr t s =
     (case callers s t of
        AtLoad \<Rightarrow>
          (case cached s of
             Some c \<Rightarrow> s\<lparr>callers := (callers s)(t := Returned (Inr c))\<rparr>
           | None \<Rightarrow> s\<lparr>callers := (callers s)(t := AtLock)\<rparr>)
      | AtLock \<Rightarrow>
          (case lockedBy s of
             None \<Rightarrow> s\<lparr>lockedBy := Some t, callers := (callers s)(t := AtLockedLoad)\<rparr>
           | Some u \<Rightarrow> s)
      | AtLockedLoad \<Rightarrow>
          (case cached s of
             Some c \<Rightarrow> s\<lparr>callers := (callers s)(t := AtUnlock (Inr c))\<rparr>
           | None \<Rightarrow> s\<lparr>callers := (callers s)(t := AtConnect)\<rparr>)
      | AtConnect \<Rightarrow>
          (case connectErr (calls s) of
             Some err \<Rightarrow>
               s\<lparr>callers := (callers s)(t := AtUnlock (Inl err)), calls := calls s + 1\<rparr>
           | None \<Rightarrow>
               s\<lparr>callers := (callers s)(t := AtStore (calls s)), calls := calls s + 1,
                 constructed := constructed s @ [calls s]\<rparr>)
      | AtStore c \<Rightarrow>
          s\<lparr>cached := Some c, callers := (callers s)(t := AtUnlock (Inr c))\<rparr>
      | AtUnlock r \<Rightarrow>
          s\<lparr>lockedBy := None, callers := (callers s)(t := Returned r)\<rparr>
      | Returned r \<Rightarrow> s)"

text \<open>An execution: the callers step in the order of the schedule.\<close>

definition connect_run :: "(nat \<Rightarrow> string option) \<Rightarrow> nat list \<Rightarrow> manager \<Rightarrow> manager" where
  "connect_run connectErr schedule s = fold (connect_step connectErr) schedule s"

text \<open>The points between \<^verbatim>\<open>Lock\<close> and \<^verbatim>\<open>Unlock\<close>.\<close>

fun inLock :: "pc \<Rightarrow> bool" where
  "inLock AtLockedLoad = True"
| "inLock AtConnect = True"
| "inLock (AtStore c) = True"
| "inLock (AtUnlock r) = True"
| "inLock p = False"

text \<open>What a caller at a given point knows of the cache and of the constructions.\<close>

fun pc_ok :: "Client option \<Rightarrow> Client list \<Rightarrow> pc \<Rightarrow> bool" where
  "pc_ok ch made AtLoad = True"
| "pc_ok ch made AtLock = True"
| "pc_ok ch made AtLockedLoad = (made = (case ch of None \<Rightarrow> [] | Some c \<Rightarrow> [c]))"
| "pc_ok ch made AtConnect = (ch = None \<and> made = [])"
| "pc_ok ch made (AtStore c) = (ch = None \<and> made = [c])"
| "pc_ok ch made (AtUnlock r) =
     (made = (case ch of None \<Rightarrow> [] | Some c \<Rightarrow> [c])
      \<and> (case r of Inl err \<Rightarrow> True | Inr c \<Rightarrow> ch = Some c))"
| "pc_ok ch made (Returned r) = (case r of Inl err \<Rightarrow> True | Inr c \<Rightarrow> ch = Some c)"

text \<open>
  The invariant of the executions: the holder of the mutex is the one caller between
  \<^verbatim>\<open>Lock\<close> and \<^verbatim>\<open>Unlock\<close>; every caller is right about the cache; while the mutex is
  free, the cache holds the handle constructed, if any.
\<close>

definition manager_inv :: "manager \<Rightarrow> bool" where
  "manager_inv s =
     ((\<forall>u. inLock (callers s u) = (lockedBy s = Some u))
      \<and> (\<forall>u. pc_ok (cached s) (constructed s) (callers s u))
      \<and> (case lockedBy s of
            None \<Rightarrow> constructed s = (case cached s of None \<Rightarrow> [] | Some c \<Rightarrow> [c])
          | Some u \<Rightarrow> True)
      \<and> length (constructed s) \<le> calls s)"

section \<open>The request cycle around a handler\<close>

text \<open>
  Modelled from the spec: the function \<^verbatim>\<open>updateAmbulanceFunc\<close>, which every handler
  passes its closure to, is not among the sources. The specification (4.4) gives its
  shape: find the aggregate, run the operation on the in-memory copy, and update the
  aggregate document; when finding the aggregate fails, the whole operation fails with
  that error. A handler that returns nil for the aggregate has nothing written; a failure
  of the update is the outcome of the request. \<open>drvFind\<close> and \<open>drvUpdate\<close> are the
  driver's answers during the two store operations.
\<close>

definition updateAmbulanceFunc ::
  "driver \<Rightarrow> driver \<Rightarrow> string \<Rightarrow> (Ambulance \<Rightarrow> outcome) \<Rightarrow> Ambulance store
     \<Rightarrow> (db_error + outcome) \<times> Ambulance store" where
  "updateAmbulanceFunc drvFind drvUpdate ambulanceId updater s =
     (case FindDocument drvFind Id_ambulance ambulanceId s of
        (Inl err, s1) \<Rightarrow> (Inl err, s1)
      | (Inr ambulance, s1) \<Rightarrow>
          (case updater ambulance of
             Panic \<Rightarrow> (Inr Panic, s1)
           | Return None content status \<Rightarrow> (Inr (Return None content status), s1)
           | Return (Some updated) content status \<Rightarrow>
               (case UpdateDocument drvUpdate Id_ambulance ambulanceId updated s1 of
                  (Some err, s2) \<Rightarrow> (Inl err, s2)
                | (None, s2) \<Rightarrow> (Inr (Return (Some updated) content status), s2))))"

section \<open>Facts about the library functions\<close>

lemmas Status_defs =
  StatusOK_def StatusNoContent_def StatusBadRequest_def StatusNotFound_def
  StatusConflict_def StatusInternalServerError_def

lemma IndexFunc_ge_m1: "- 1 \<le> IndexFunc xs f"
  by (induction xs) (auto simp: Let_def)

lemma IndexFunc_neg_iff: "(IndexFunc xs f < 0) = (\<forall>x\<in>set xs. \<not> f x)"
  by (induction xs) (auto simp: Let_def)

lemma IndexFunc_nth:
  "0 \<le> IndexFunc xs f \<Longrightarrow>
     nat (IndexFunc xs f) < length xs \<and> f (xs ! nat (IndexFunc xs f))
     \<and> (\<forall>j < nat (IndexFunc xs f). \<not> f (xs ! j))"
proof (induction xs)
  case Nil
  then show ?case by simp
next
  case (Cons x xs)
  show ?case
  proof (cases "f x")
    case True
    then show ?thesis by simp
  next
    case False
    with Cons.prems have ge: "0 \<le> IndexFunc xs f"
      by (simp add: Let_def split: if_splits)
    note ih = Cons.IH [OF ge]
    have eq: "nat (IndexFunc (x # xs) f) = Suc (nat (IndexFunc xs f))"
      using False ge by (simp add: Let_def nat_add_distrib)
    show ?thesis
      unfolding eq using ih False by (auto simp: nth_Cons split: nat.splits)
  qed
qed

lemma IndexFunc_unique:
  assumes "x \<in> set xs" "f x" "\<forall>y\<in>set xs. f y \<longrightarrow> y = x"
  shows "0 \<le> IndexFunc xs f \<and> xs ! nat (IndexFunc xs f) = x"
proof -
  have ge: "0 \<le> IndexFunc xs f"
    using assms(1,2) IndexFunc_neg_iff [of xs f] by fastforce
  from IndexFunc_nth [OF ge]
  have "xs ! nat (IndexFunc xs f) \<in> set xs" "f (xs ! nat (IndexFunc xs f))"
    by auto
  with assms(3) ge show ?thesis by blast
qed

lemma reorders_Reconcile: "reorders Reconcile"
  by (simp add: reorders_def Reconcile_def)

lemma reorders_set: "reorders r \<Longrightarrow> set (r l) = set l"
  unfolding reorders_def by (metis set_mset_mset)

lemma reorders_length: "reorders r \<Longrightarrow> length (r l) = length l"
  unfolding reorders_def by (metis size_mset)

section \<open>Facts about the handlers\<close>

lemma applyDefaults_Id:
  "Id_entry (applyDefaults newId now1 now2 e) =
     (if Id_entry e = '''' \<or> Id_entry e = ''@new'' then newId else Id_entry e)"
  by (simp add: applyDefaults_def Let_def)

lemma applyDefaults_PatientId: "PatientId (applyDefaults newId now1 now2 e) = PatientId e"
  by (simp add: applyDefaults_def Let_def)

lemma applyDefaults_WaitingSince:
  "WaitingSince (applyDefaults newId now1 now2 e) =
     (if WaitingSince e < now1 then now2 else WaitingSince e)"
  by (simp add: applyDefaults_def Let_def Before_def)

lemma applyDefaults_Duration:
  "EstimatedDurationMinutes (applyDefaults newId now1 now2 e) =
     (if EstimatedDurationMinutes e \<le> 0 then 15 else EstimatedDurationMinutes e)"
  by (simp add: applyDefaults_def Let_def)

lemma Create_conflict:
  assumes "PatientId entry0 \<noteq> ''''"
    and "\<exists>w\<in>set (WaitingList ambulance).
           Id_entry w = Id_entry (applyDefaults newId now1 now2 entry0)
           \<or> PatientId w = PatientId entry0"
  shows "CreateWaitingListEntry r newId now1 now2 (Inr entry0) ambulance =
           Return None (H StatusConflict ''Entry already exists'' None) StatusConflict"
proof -
  let ?e = "applyDefaults newId now1 now2 entry0"
  let ?p = "\<lambda>waiting. Id_entry ?e = Id_entry waiting \<or> PatientId ?e = PatientId waiting"
  have "\<not> IndexFunc (WaitingList ambulance) ?p < 0"
    unfolding IndexFunc_neg_iff applyDefaults_PatientId using assms(2) by metis
  then show ?thesis
    using assms(1) by (simp add: CreateWaitingListEntry_def Let_def)
qed

lemma Create_success:
  assumes r: "reorders r"
    and p: "PatientId entry0 \<noteq> ''''"
    and free: "\<forall>w\<in>set (WaitingList ambulance).
           Id_entry w \<noteq> Id_entry (applyDefaults newId now1 now2 entry0)
           \<and> PatientId w \<noteq> PatientId entry0"
  shows "CreateWaitingListEntry r newId now1 now2 (Inr entry0) ambulance =
           Return (Some (ambulance\<lparr>WaitingList :=
                     r (WaitingList ambulance @ [applyDefaults newId now1 now2 entry0])\<rparr>))
             (Entry (applyDefaults newId now1 now2 entry0)) StatusOK"
proof -
  let ?e = "applyDefaults newId now1 now2 entry0"
  let ?p = "\<lambda>waiting. Id_entry ?e = Id_entry waiting \<or> PatientId ?e = PatientId waiting"
  let ?l = "r (WaitingList ambulance @ [?e])"
  let ?q = "\<lambda>waiting. Id_entry ?e = Id_entry waiting"
  have noconf: "IndexFunc (WaitingList ambulance) ?p < 0"
    unfolding IndexFunc_neg_iff using free by (auto simp: applyDefaults_PatientId)
  have s: "set ?l = set (WaitingList ambulance) \<union> {?e}"
    using reorders_set [OF r] by simp
  have "?e \<in> set ?l" "?q ?e" "\<forall>y\<in>set ?l. ?q y \<longrightarrow> y = ?e"
    using s free by auto
  from IndexFunc_unique [OF this]
  have found: "0 \<le> IndexFunc ?l ?q" "?l ! nat (IndexFunc ?l ?q) = ?e"
    by auto
  show ?thesis
    using p noconf found by (simp add: CreateWaitingListEntry_def Let_def)
qed

lemma overwriteFields_PatientId:
  "PatientId (overwriteFields e old) = (if PatientId e \<noteq> '''' then PatientId e else PatientId old)"
  by (simp add: overwriteFields_def Let_def)

lemma overwriteFields_Id:
  "Id_entry (overwriteFields e old) = (if Id_entry e \<noteq> '''' then Id_entry e else Id_entry old)"
  by (simp add: overwriteFields_def Let_def)

lemma overwriteFields_WaitingSince:
  "WaitingSince (overwriteFields e old) =
     (if zeroTime < WaitingSince e then WaitingSince e else WaitingSince old)"
  by (simp add: overwriteFields_def Let_def After_def)

lemma overwriteFields_Duration:
  "EstimatedDurationMinutes (overwriteFields e old) =
     (if 0 < EstimatedDurationMinutes e then EstimatedDurationMinutes e
      else EstimatedDurationMinutes old)"
  by (simp add: overwriteFields_def Let_def)

lemma Update_found:
  assumes r: "reorders r"
    and ne: "entryId \<noteq> ''''"
    and ex: "\<exists>w\<in>set (WaitingList ambulance). Id_entry w = entryId"
  shows "UpdateWaitingListEntry r (Inr entry) entryId ambulance =
           (let i = nat (IndexFunc (WaitingList ambulance) (\<lambda>w. entryId = Id_entry w));
                l = r ((WaitingList ambulance)
                         [i := overwriteFields entry (WaitingList ambulance ! i)])
            in Return (Some (ambulance\<lparr>WaitingList := l\<rparr>)) (Entry (l ! i)) StatusOK)"
proof -
  let ?q = "\<lambda>w. entryId = Id_entry w"
  have ge: "0 \<le> IndexFunc (WaitingList ambulance) ?q"
    using ex IndexFunc_neg_iff [of "WaitingList ambulance" ?q] by fastforce
  from IndexFunc_nth [OF ge]
  have lt: "nat (IndexFunc (WaitingList ambulance) ?q) < length (WaitingList ambulance)"
    by simp
  show ?thesis
    using ne ge lt by (simp add: UpdateWaitingListEntry_def Let_def reorders_length [OF r])
qed

lemma FindDocument_documents: "documents (snd (FindDocument drv idOf docId s)) = documents s"
  by (auto simp: FindDocument_def connect_def split: option.splits sum.splits find_error.splits)

lemma updateAmbulanceFunc_nothing_written:
  assumes "\<And>a. \<exists>content status. updater a = Return None content status"
  shows "documents (snd (updateAmbulanceFunc drvFind drvUpdate ambulanceId updater s)) = documents s"
proof (cases "FindDocument drvFind Id_ambulance ambulanceId s")
  case (Pair res s1)
  have d: "documents s1 = documents s"
    using FindDocument_documents [of drvFind Id_ambulance ambulanceId s] Pair by simp
  show ?thesis
  proof (cases res)
    case (Inl e)
    with Pair d show ?thesis by (simp add: updateAmbulanceFunc_def)
  next
    case (Inr a)
    from assms [of a] obtain content status where "updater a = Return None content status"
      by blast
    with Pair Inr d show ?thesis by (simp add: updateAmbulanceFunc_def)
  qed
qed

section \<open>Claims about creating an entry\<close>

text \<open>
  C1, as stated, fails. With the server clock at 100, a request that supplies a
  \<open>WaitingSince\<close> of 200, in the future, has 200 stored and not 100; a request that
  supplies 50, in the past and not missing, has 100 stored and not 50. The comparison of
  the source is \<^verbatim>\<open>entry.WaitingSince.Before(time.Now())\<close>.
\<close>

theorem create_future_WaitingSince_kept:
  "CreateWaitingListEntry Reconcile ''u1'' 100 100
     (Inr \<lparr>Id_entry = '''', PatientId = ''P1'', WaitingSince = 200,
            EstimatedDurationMinutes = 0\<rparr>)
     \<lparr>Id_ambulance = ''A1'', Name = ''n'', WaitingList = []\<rparr>
   = Return
       (Some \<lparr>Id_ambulance = ''A1'', Name = ''n'', WaitingList =
          [\<lparr>Id_entry = ''u1'', PatientId = ''P1'', WaitingSince = 200,
             EstimatedDurationMinutes = 15\<rparr>]\<rparr>)
       (Entry \<lparr>Id_entry = ''u1'', PatientId = ''P1'', WaitingSince = 200,
                 EstimatedDurationMinutes = 15\<rparr>)
       StatusOK
   \<and> CreateWaitingListEntry Reconcile ''u1'' 100 100
     (Inr \<lparr>Id_entry = '''', PatientId = ''P1'', WaitingSince = 50,
            EstimatedDurationMinutes = 0\<rparr>)
     \<lparr>Id_ambulance = ''A1'', Name = ''n'', WaitingList = []\<rparr>
   = Return
       (Some \<lparr>Id_ambulance = ''A1'', Name = ''n'', WaitingList =
          [\<lparr>Id_entry = ''u1'', PatientId = ''P1'', WaitingSince = 100,
             EstimatedDurationMinutes = 15\<rparr>]\<rparr>)
       (Entry \<lparr>Id_entry = ''u1'', PatientId = ''P1'', WaitingSince = 100,
                 EstimatedDurationMinutes = 15\<rparr>)
       StatusOK"
  by (simp add: CreateWaitingListEntry_def applyDefaults_def Before_def Reconcile_def
      Let_def Status_defs)

text \<open>
  C1, amended. For every create-entry request that passes validation and meets no
  conflict, with any reconciler that only reorders the list, the entry is stored and
  returned with status 200, and its \<open>WaitingSince\<close> is never before the server clock at
  creation time: a supplied value strictly before the clock reading of the comparison
  (a missing value is the zero time) is replaced by the clock reading of the assignment,
  and any other supplied value, equal to the clock or in the future, is kept.
\<close>

theorem create_WaitingSince_not_before_now:
  assumes "reorders reconcileWaitingList"
    and "PatientId entry0 \<noteq> ''''"
    and "\<forall>w\<in>set (WaitingList ambulance).
           Id_entry w \<noteq> (if Id_entry entry0 = '''' \<or> Id_entry entry0 = ''@new''
                             then newId else Id_entry entry0)
           \<and> PatientId w \<noteq> PatientId entry0"
  shows "\<exists>ambulance' stored.
           CreateWaitingListEntry reconcileWaitingList newId now1 now2 (Inr entry0) ambulance
             = Return (Some ambulance') (Entry stored) StatusOK
           \<and> stored \<in> set (WaitingList ambulance')
           \<and> WaitingSince stored =
               (if WaitingSince entry0 < now1 then now2 else WaitingSince entry0)
           \<and> min now1 now2 \<le> WaitingSince stored"
proof -
  let ?e = "applyDefaults newId now1 now2 entry0"
  let ?a = "ambulance\<lparr>WaitingList := reconcileWaitingList (WaitingList ambulance @ [?e])\<rparr>"
  have free: "\<forall>w\<in>set (WaitingList ambulance).
      Id_entry w \<noteq> Id_entry ?e \<and> PatientId w \<noteq> PatientId entry0"
    using assms(3) by (simp add: applyDefaults_Id)
  have res: "CreateWaitingListEntry reconcileWaitingList newId now1 now2 (Inr entry0) ambulance
      = Return (Some ?a) (Entry ?e) StatusOK"
    by (rule Create_success [OF assms(1,2) free])
  have mem: "?e \<in> set (WaitingList ?a)"
    by (simp add: reorders_set [OF assms(1)])
  have ws: "WaitingSince ?e = (if WaitingSince entry0 < now1 then now2 else WaitingSince entry0)"
    by (rule applyDefaults_WaitingSince)
  have "min now1 now2 \<le> WaitingSince ?e"
    unfolding ws by (simp add: min_def)
  with res mem ws show ?thesis by blast
qed

text \<open>The amended C1 at a request with a past \<open>WaitingSince\<close> and one entry already waiting.\<close>

theorem create_WaitingSince_not_before_now_witness:
  "\<exists>ambulance' stored.
     CreateWaitingListEntry Reconcile ''u1'' 100 101
       (Inr \<lparr>Id_entry = ''@new'', PatientId = ''P1'', WaitingSince = 50,
              EstimatedDurationMinutes = 0\<rparr>)
       \<lparr>Id_ambulance = ''A1'', Name = ''n'', WaitingList =
          [\<lparr>Id_entry = ''e0'', PatientId = ''P0'', WaitingSince = 10,
             EstimatedDurationMinutes = 15\<rparr>]\<rparr>
       = Return (Some ambulance') (Entry stored) StatusOK
     \<and> stored \<in> set (WaitingList ambulance')
     \<and> WaitingSince stored = 101
     \<and> 100 \<le> WaitingSince stored"
  using create_WaitingSince_not_before_now [OF reorders_Reconcile,
    of "\<lparr>Id_entry = ''@new'', PatientId = ''P1'', WaitingSince = 50,
          EstimatedDurationMinutes = 0\<rparr>"
       "\<lparr>Id_ambulance = ''A1'', Name = ''n'', WaitingList =
          [\<lparr>Id_entry = ''e0'', PatientId = ''P0'', WaitingSince = 10,
             EstimatedDurationMinutes = 15\<rparr>]\<rparr>"
       "''u1''" 100 101]
  by simp

text \<open>
  C10. In create-entry, for every request that passes validation and meets no conflict,
  the stored and returned entry has the generated id exactly when the supplied \<open>Id\<close> is
  the empty string or the placeholder \<^verbatim>\<open>@new\<close>; any other supplied \<open>Id\<close> is kept as it
  is, whatever its form.
\<close>

theorem create_assigns_id:
  assumes "reorders reconcileWaitingList"
    and "PatientId entry0 \<noteq> ''''"
    and "\<forall>w\<in>set (WaitingList ambulance).
           Id_entry w \<noteq> (if Id_entry entry0 = '''' \<or> Id_entry entry0 = ''@new''
                             then newId else Id_entry entry0)
           \<and> PatientId w \<noteq> PatientId entry0"
  shows "\<exists>ambulance' stored.
           CreateWaitingListEntry reconcileWaitingList newId now1 now2 (Inr entry0) ambulance
             = Return (Some ambulance') (Entry stored) StatusOK
           \<and> stored \<in> set (WaitingList ambulance')
           \<and> Id_entry stored =
               (if Id_entry entry0 = '''' \<or> Id_entry entry0 = ''@new''
                then newId else Id_entry entry0)"
proof -
  let ?e = "applyDefaults newId now1 now2 entry0"
  let ?a = "ambulance\<lparr>WaitingList := reconcileWaitingList (WaitingList ambulance @ [?e])\<rparr>"
  have free: "\<forall>w\<in>set (WaitingList ambulance).
      Id_entry w \<noteq> Id_entry ?e \<and> PatientId w \<noteq> PatientId entry0"
    using assms(3) by (simp add: applyDefaults_Id)
  have res: "CreateWaitingListEntry reconcileWaitingList newId now1 now2 (Inr entry0) ambulance
      = Return (Some ?a) (Entry ?e) StatusOK"
    by (rule Create_success [OF assms(1,2) free])
  have mem: "?e \<in> set (WaitingList ?a)"
    by (simp add: reorders_set [OF assms(1)])
  from res mem applyDefaults_Id [of newId now1 now2 entry0] show ?thesis by blast
qed

text \<open>C10 at the placeholder id, and at a supplied id that is not a UUID.\<close>

theorem create_assigns_id_witness:
  "(\<exists>ambulance' stored.
     CreateWaitingListEntry Reconcile ''u1'' 100 101
       (Inr \<lparr>Id_entry = ''@new'', PatientId = ''P1'', WaitingSince = 50,
              EstimatedDurationMinutes = 0\<rparr>)
       \<lparr>Id_ambulance = ''A1'', Name = ''n'', WaitingList =
          [\<lparr>Id_entry = ''e0'', PatientId = ''P0'', WaitingSince = 10,
             EstimatedDurationMinutes = 15\<rparr>]\<rparr>
       = Return (Some ambulance') (Entry stored) StatusOK
     \<and> stored \<in> set (WaitingList ambulance')
     \<and> Id_entry stored = ''u1'')
   \<and> (\<exists>ambulance' stored.
     CreateWaitingListEntry Reconcile ''u1'' 100 101
       (Inr \<lparr>Id_entry = ''not a uuid'', PatientId = ''P1'', WaitingSince = 50,
              EstimatedDurationMinutes = 0\<rparr>)
       \<lparr>Id_ambulance = ''A1'', Name = ''n'', WaitingList =
          [\<lparr>Id_entry = ''e0'', PatientId = ''P0'', WaitingSince = 10,
             EstimatedDurationMinutes = 15\<rparr>]\<rparr>
       = Return (Some ambulance') (Entry stored) StatusOK
     \<and> stored \<in> set (WaitingList ambulance')
     \<and> Id_entry stored = ''not a uuid'')"
  using create_assigns_id [OF reorders_Reconcile,
    of "\<lparr>Id_entry = ''@new'', PatientId = ''P1'', WaitingSince = 50,
          EstimatedDurationMinutes = 0\<rparr>"
       "\<lparr>Id_ambulance = ''A1'', Name = ''n'', WaitingList =
          [\<lparr>Id_entry = ''e0'', PatientId = ''P0'', WaitingSince = 10,
             EstimatedDurationMinutes = 15\<rparr>]\<rparr>"
       "''u1''" 100 101]
    create_assigns_id [OF reorders_Reconcile,
    of "\<lparr>Id_entry = ''not a uuid'', PatientId = ''P1'', WaitingSince = 50,
          EstimatedDurationMinutes = 0\<rparr>"
       "\<lparr>Id_ambulance = ''A1'', Name = ''n'', WaitingList =
          [\<lparr>Id_entry = ''e0'', PatientId = ''P0'', WaitingSince = 10,
             EstimatedDurationMinutes = 15\<rparr>]\<rparr>"
       "''u1''" 100 101]
  by simp

text \<open>
  C5, as stated, fails. A create-entry request whose \<open>Id\<close> is already in the waiting list
  and whose \<open>PatientId\<close> is empty is answered with status 400, the validation failure, and
  not with Conflict: the handler checks the patient id before it looks for a conflict.
\<close>

theorem create_conflicting_id_without_patient:
  "CreateWaitingListEntry Reconcile ''u1'' 100 100
     (Inr \<lparr>Id_entry = ''e1'', PatientId = '''', WaitingSince = 0,
            EstimatedDurationMinutes = 0\<rparr>)
     \<lparr>Id_ambulance = ''A1'', Name = ''n'', WaitingList =
        [\<lparr>Id_entry = ''e1'', PatientId = ''P1'', WaitingSince = 10,
           EstimatedDurationMinutes = 15\<rparr>]\<rparr>
   = Return None (H StatusBadRequest ''Patient ID is required'' None) StatusBadRequest
   \<and> StatusBadRequest \<noteq> StatusConflict"
  by (simp add: CreateWaitingListEntry_def Status_defs)

text \<open>
  C5, amended. For every create-entry request that passes validation (the body is
  decoded and \<open>PatientId\<close> is not empty), if an entry of the ambulance's waiting list has
  the \<open>Id\<close> of the request after defaulting (the supplied one, or the generated one when
  the supplied one is empty or \<^verbatim>\<open>@new\<close>) or has its \<open>PatientId\<close>, the operation fails with
  Conflict, status 409, and the stored documents, hence the stored waiting list, are left
  unchanged.
\<close>

theorem create_conflict_leaves_store:
  assumes found: "fst (FindDocument drvFind Id_ambulance ambulanceId s) = Inr ambulance"
    and p: "PatientId entry0 \<noteq> ''''"
    and conflict: "\<exists>w\<in>set (WaitingList ambulance).
           Id_entry w = (if Id_entry entry0 = '''' \<or> Id_entry entry0 = ''@new''
                         then newId else Id_entry entry0)
           \<or> PatientId w = PatientId entry0"
  shows "CreateWaitingListEntry reconcileWaitingList newId now1 now2 (Inr entry0) ambulance
           = Return None (H StatusConflict ''Entry already exists'' None) StatusConflict
         \<and> fst (updateAmbulanceFunc drvFind drvUpdate ambulanceId
                 (CreateWaitingListEntry reconcileWaitingList newId now1 now2 (Inr entry0)) s)
           = Inr (Return None (H StatusConflict ''Entry already exists'' None) StatusConflict)
         \<and> documents (snd (updateAmbulanceFunc drvFind drvUpdate ambulanceId
                 (CreateWaitingListEntry reconcileWaitingList newId now1 now2 (Inr entry0)) s))
           = documents s"
proof -
  let ?upd = "CreateWaitingListEntry reconcileWaitingList newId now1 now2 (Inr entry0)"
  have c: "\<exists>w\<in>set (WaitingList ambulance).
      Id_entry w = Id_entry (applyDefaults newId now1 now2 entry0)
      \<or> PatientId w = PatientId entry0"
    using conflict by (simp add: applyDefaults_Id)
  have res: "?upd ambulance
      = Return None (H StatusConflict ''Entry already exists'' None) StatusConflict"
    by (rule Create_conflict [OF p c])
  obtain r s1 where fd: "FindDocument drvFind Id_ambulance ambulanceId s = (r, s1)"
    by (cases "FindDocument drvFind Id_ambulance ambulanceId s")
  with found have r: "r = Inr ambulance" by simp
  have d: "documents s1 = documents s"
    using FindDocument_documents [of drvFind Id_ambulance ambulanceId s] fd by simp
  have "updateAmbulanceFunc drvFind drvUpdate ambulanceId ?upd s
      = (Inr (Return None (H StatusConflict ''Entry already exists'' None) StatusConflict), s1)"
    using fd r res by (simp add: updateAmbulanceFunc_def)
  with res d show ?thesis by simp
qed

text \<open>The amended C5 at a request for a patient who is already waiting.\<close>

theorem create_conflict_leaves_store_witness:
  "CreateWaitingListEntry Reconcile ''u1'' 100 101
     (Inr \<lparr>Id_entry = '''', PatientId = ''P1'', WaitingSince = 0,
            EstimatedDurationMinutes = 0\<rparr>)
     \<lparr>Id_ambulance = ''A1'', Name = ''n'', WaitingList =
        [\<lparr>Id_entry = ''e1'', PatientId = ''P1'', WaitingSince = 10,
           EstimatedDurationMinutes = 15\<rparr>]\<rparr>
     = Return None (H StatusConflict ''Entry already exists'' None) StatusConflict
   \<and> fst (updateAmbulanceFunc
        \<lparr>mongo_Connect = Inr 7, findErr = None, decodeErr = None, replaceErr = None\<rparr>
        \<lparr>mongo_Connect = Inr 7, findErr = None, decodeErr = None, replaceErr = None\<rparr>
        ''A1''
        (CreateWaitingListEntry Reconcile ''u1'' 100 101
          (Inr \<lparr>Id_entry = '''', PatientId = ''P1'', WaitingSince = 0,
                 EstimatedDurationMinutes = 0\<rparr>))
        \<lparr>client = None, documents =
          [\<lparr>Id_ambulance = ''A1'', Name = ''n'', WaitingList =
             [\<lparr>Id_entry = ''e1'', PatientId = ''P1'', WaitingSince = 10,
                EstimatedDurationMinutes = 15\<rparr>]\<rparr>]\<rparr>)
     = Inr (Return None (H StatusConflict ''Entry already exists'' None) StatusConflict)
   \<and> documents (snd (updateAmbulanceFunc
        \<lparr>mongo_Connect = Inr 7, findErr = None, decodeErr = None, replaceErr = None\<rparr>
        \<lparr>mongo_Connect = Inr 7, findErr = None, decodeErr = None, replaceErr = None\<rparr>
        ''A1''
        (CreateWaitingListEntry Reconcile ''u1'' 100 101
          (Inr \<lparr>Id_entry = '''', PatientId = ''P1'', WaitingSince = 0,
                 EstimatedDurationMinutes = 0\<rparr>))
        \<lparr>client = None, documents =
          [\<lparr>Id_ambulance = ''A1'', Name = ''n'', WaitingList =
             [\<lparr>Id_entry = ''e1'', PatientId = ''P1'', WaitingSince = 10,
                EstimatedDurationMinutes = 15\<rparr>]\<rparr>]\<rparr>))
     = [\<lparr>Id_ambulance = ''A1'', Name = ''n'', WaitingList =
         [\<lparr>Id_entry = ''e1'', PatientId = ''P1'', WaitingSince = 10,
            EstimatedDurationMinutes = 15\<rparr>]\<rparr>]"
  using create_conflict_leaves_store
    [of "\<lparr>mongo_Connect = Inr 7, findErr = None, decodeErr = None, replaceErr = None\<rparr>"
        "''A1''"
        "\<lparr>client = None, documents =
          [\<lparr>Id_ambulance = ''A1'', Name = ''n'', WaitingList =
             [\<lparr>Id_entry = ''e1'', PatientId = ''P1'', WaitingSince = 10,
                EstimatedDurationMinutes = 15\<rparr>]\<rparr>]\<rparr>"
        "\<lparr>Id_ambulance = ''A1'', Name = ''n'', WaitingList =
          [\<lparr>Id_entry = ''e1'', PatientId = ''P1'', WaitingSince = 10,
             EstimatedDurationMinutes = 15\<rparr>]\<rparr>"
        "\<lparr>Id_entry = '''', PatientId = ''P1'', WaitingSince = 0,
           EstimatedDurationMinutes = 0\<rparr>"
        "''u1''" Reconcile 100 101
        "\<lparr>mongo_Connect = Inr 7, findErr = None, decodeErr = None, replaceErr = None\<rparr>"]
  by (simp add: FindDocument_def connect_def FindOne_def)

section \<open>Claims about reading, updating and deleting an entry\<close>

text \<open>
  C9. A get-one, update or delete request whose entry id is the empty string is answered
  with status 400, the validation failure, and not with 404, whatever the waiting list
  holds; the handler returns no aggregate to write, and the stored documents are
  unchanged. (The update handler decodes the body first; a body that cannot be decoded
  is answered with 400 as well.)
\<close>

theorem empty_entry_id_is_bad_request:
  "GetWaitingListEntry '''' ambulance
     = Return None (H StatusBadRequest ''Entry ID is required'' None) StatusBadRequest
   \<and> DeleteWaitingListEntry reconcileWaitingList '''' ambulance
     = Return None (H StatusBadRequest ''Entry ID is required'' None) StatusBadRequest
   \<and> UpdateWaitingListEntry reconcileWaitingList body '''' ambulance
     = Return None
         (case body of
            Inl err \<Rightarrow> H StatusBadRequest ''Invalid request body'' (Some err)
          | Inr entry \<Rightarrow> H StatusBadRequest ''Entry ID is required'' None)
         StatusBadRequest
   \<and> StatusBadRequest = 400 \<and> StatusNotFound = 404
   \<and> documents (snd (updateAmbulanceFunc drvFind drvUpdate ambulanceId
        (GetWaitingListEntry '''') s)) = documents s
   \<and> documents (snd (updateAmbulanceFunc drvFind drvUpdate ambulanceId
        (DeleteWaitingListEntry reconcileWaitingList '''') s)) = documents s
   \<and> documents (snd (updateAmbulanceFunc drvFind drvUpdate ambulanceId
        (UpdateWaitingListEntry reconcileWaitingList body '''') s)) = documents s"
proof -
  have g: "\<And>a. GetWaitingListEntry '''' a
     = Return None (H StatusBadRequest ''Entry ID is required'' None) StatusBadRequest"
    by (simp add: GetWaitingListEntry_def)
  have d: "\<And>a. DeleteWaitingListEntry reconcileWaitingList '''' a
     = Return None (H StatusBadRequest ''Entry ID is required'' None) StatusBadRequest"
    by (simp add: DeleteWaitingListEntry_def)
  have u: "\<And>a. UpdateWaitingListEntry reconcileWaitingList body '''' a
     = Return None
         (case body of
            Inl err \<Rightarrow> H StatusBadRequest ''Invalid request body'' (Some err)
          | Inr entry \<Rightarrow> H StatusBadRequest ''Entry ID is required'' None)
         StatusBadRequest"
    by (simp add: UpdateWaitingListEntry_def split: sum.splits)
  have sg: "documents (snd (updateAmbulanceFunc drvFind drvUpdate ambulanceId
        (GetWaitingListEntry '''') s)) = documents s"
    by (rule updateAmbulanceFunc_nothing_written) (simp add: g)
  have sd: "documents (snd (updateAmbulanceFunc drvFind drvUpdate ambulanceId
        (DeleteWaitingListEntry reconcileWaitingList '''') s)) = documents s"
    by (rule updateAmbulanceFunc_nothing_written) (simp add: d)
  have su: "documents (snd (updateAmbulanceFunc drvFind drvUpdate ambulanceId
        (UpdateWaitingListEntry reconcileWaitingList body '''') s)) = documents s"
    by (rule updateAmbulanceFunc_nothing_written) (simp add: u)
  show ?thesis
    using g [of ambulance] d [of ambulance] u [of ambulance] sg sd su
    by (simp add: Status_defs)
qed

text \<open>
  C3. For every update-entry request with a non-empty entry id that an entry of the list
  has, the first such entry, \<open>old\<close>, is replaced in the stored list by \<open>new\<close>, and every
  other entry is stored as it was. Each of the four fields of \<open>new\<close> is the supplied value
  if that value is non-empty (\<open>PatientId\<close>, \<open>Id\<close>), after the zero time (\<open>WaitingSince\<close>) or
  positive (\<open>EstimatedDurationMinutes\<close>), and the value of \<open>old\<close> otherwise. The reconciler
  is any function that only reorders the list.
\<close>

theorem update_overwrites_supplied_fields:
  assumes r: "reorders reconcileWaitingList"
    and ne: "entryId \<noteq> ''''"
    and ex: "\<exists>w\<in>set (WaitingList ambulance). Id_entry w = entryId"
  shows "\<exists>i old new ambulance' content.
           i < length (WaitingList ambulance)
           \<and> old = WaitingList ambulance ! i
           \<and> Id_entry old = entryId
           \<and> (\<forall>j<i. Id_entry (WaitingList ambulance ! j) \<noteq> entryId)
           \<and> UpdateWaitingListEntry reconcileWaitingList (Inr entry) entryId ambulance
               = Return (Some ambulance') content StatusOK
           \<and> mset (WaitingList ambulance') = mset ((WaitingList ambulance)[i := new])
           \<and> PatientId new =
               (if PatientId entry \<noteq> '''' then PatientId entry else PatientId old)
           \<and> Id_entry new =
               (if Id_entry entry \<noteq> '''' then Id_entry entry else Id_entry old)
           \<and> WaitingSince new =
               (if zeroTime < WaitingSince entry then WaitingSince entry
                else WaitingSince old)
           \<and> EstimatedDurationMinutes new =
               (if 0 < EstimatedDurationMinutes entry then EstimatedDurationMinutes entry
                else EstimatedDurationMinutes old)"
proof -
  let ?l = "WaitingList ambulance"
  let ?q = "\<lambda>w. entryId = Id_entry w"
  let ?i = "nat (IndexFunc ?l ?q)"
  let ?new = "overwriteFields entry (?l ! ?i)"
  let ?l' = "reconcileWaitingList (?l[?i := ?new])"
  have ge: "0 \<le> IndexFunc ?l ?q"
    using ex IndexFunc_neg_iff [of ?l ?q] by fastforce
  from IndexFunc_nth [OF ge]
  have i: "?i < length ?l" "Id_entry (?l ! ?i) = entryId"
    "\<forall>j<?i. Id_entry (?l ! j) \<noteq> entryId"
    by auto
  have res: "UpdateWaitingListEntry reconcileWaitingList (Inr entry) entryId ambulance
      = Return (Some (ambulance\<lparr>WaitingList := ?l'\<rparr>)) (Entry (?l' ! ?i)) StatusOK"
    using Update_found [OF r ne ex, of entry] by (simp add: Let_def)
  have m: "mset (WaitingList (ambulance\<lparr>WaitingList := ?l'\<rparr>)) = mset (?l[?i := ?new])"
    using r by (simp add: reorders_def)
  show ?thesis
    using i res m overwriteFields_PatientId [of entry "?l ! ?i"]
      overwriteFields_Id [of entry "?l ! ?i"]
      overwriteFields_WaitingSince [of entry "?l ! ?i"]
      overwriteFields_Duration [of entry "?l ! ?i"]
    by blast
qed

text \<open>C3 at an update that supplies only a patient id.\<close>

theorem update_overwrites_supplied_fields_witness:
  "\<exists>i old new ambulance' content.
     i < length [\<lparr>Id_entry = ''e1'', PatientId = ''P1'', WaitingSince = 10,
                   EstimatedDurationMinutes = 15\<rparr>,
                 \<lparr>Id_entry = ''e2'', PatientId = ''P2'', WaitingSince = 20,
                   EstimatedDurationMinutes = 30\<rparr>]
     \<and> old = \<lparr>Id_entry = ''e2'', PatientId = ''P2'', WaitingSince = 20,
               EstimatedDurationMinutes = 30\<rparr>
     \<and> UpdateWaitingListEntry Reconcile
         (Inr \<lparr>Id_entry = '''', PatientId = ''P3'', WaitingSince = 0,
                EstimatedDurationMinutes = 0\<rparr>)
         ''e2''
         \<lparr>Id_ambulance = ''A1'', Name = ''n'', WaitingList =
            [\<lparr>Id_entry = ''e1'', PatientId = ''P1'', WaitingSince = 10,
               EstimatedDurationMinutes = 15\<rparr>,
             \<lparr>Id_entry = ''e2'', PatientId = ''P2'', WaitingSince = 20,
               EstimatedDurationMinutes = 30\<rparr>]\<rparr>
         = Return (Some ambulance') content StatusOK
     \<and> mset (WaitingList ambulance') =
         mset ([\<lparr>Id_entry = ''e1'', PatientId = ''P1'', WaitingSince = 10,
                  EstimatedDurationMinutes = 15\<rparr>,
                \<lparr>Id_entry = ''e2'', PatientId = ''P2'', WaitingSince = 20,
                  EstimatedDurationMinutes = 30\<rparr>][i := new])
     \<and> PatientId new = ''P3''
     \<and> Id_entry new = ''e2''
     \<and> WaitingSince new = 20
     \<and> EstimatedDurationMinutes new = 30"
proof -
  let ?a = "\<lparr>Id_ambulance = ''A1'', Name = ''n'', WaitingList =
            [\<lparr>Id_entry = ''e1'', PatientId = ''P1'', WaitingSince = 10,
               EstimatedDurationMinutes = 15\<rparr>,
             \<lparr>Id_entry = ''e2'', PatientId = ''P2'', WaitingSince = 20,
               EstimatedDurationMinutes = 30\<rparr>]\<rparr>"
  let ?e = "\<lparr>Id_entry = '''', PatientId = ''P3'', WaitingSince = 0,
                EstimatedDurationMinutes = 0\<rparr>"
  have ne: "''e2'' \<noteq> ''''" by simp
  have ex: "\<exists>w\<in>set (WaitingList ?a). Id_entry w = ''e2''" by simp
  from update_overwrites_supplied_fields [OF reorders_Reconcile ne ex, of ?e]
  obtain i old new ambulance' content where
    h: "i < length (WaitingList ?a)" "old = WaitingList ?a ! i" "Id_entry old = ''e2''"
       "UpdateWaitingListEntry Reconcile (Inr ?e) ''e2'' ?a
          = Return (Some ambulance') content StatusOK"
       "mset (WaitingList ambulance') = mset ((WaitingList ?a)[i := new])"
       "PatientId new = (if PatientId ?e \<noteq> '''' then PatientId ?e else PatientId old)"
       "Id_entry new = (if Id_entry ?e \<noteq> '''' then Id_entry ?e else Id_entry old)"
       "WaitingSince new = (if zeroTime < WaitingSince ?e then WaitingSince ?e
                else WaitingSince old)"
       "EstimatedDurationMinutes new =
               (if 0 < EstimatedDurationMinutes ?e then EstimatedDurationMinutes ?e
                else EstimatedDurationMinutes old)"
    by blast
  from h(1,2,3) have i1: "i = 1"
    by (cases i) (auto simp: nth_Cons split: nat.splits)
  with h(2) have old: "old = \<lparr>Id_entry = ''e2'', PatientId = ''P2'', WaitingSince = 20,
               EstimatedDurationMinutes = 30\<rparr>"
    by simp
  show ?thesis
    using h old by (simp add: zeroTime_def) blast
qed

text \<open>
  C4 fails on the code. The handler reads the entry to return at the index it found
  before the reconciliation. Updating \<open>WaitingSince\<close> of the entry \<^verbatim>\<open>e1\<close> from 10 to 30
  moves it behind \<^verbatim>\<open>e2\<close> when the reconciler sorts by arrival time, and the handler
  returns \<^verbatim>\<open>e2\<close>, an entry the request did not address. The create handler looks its
  entry up again by id after the reconciliation.
\<close>

theorem update_returns_entry_at_stale_index:
  "UpdateWaitingListEntry Reconcile
     (Inr \<lparr>Id_entry = '''', PatientId = '''', WaitingSince = 30,
            EstimatedDurationMinutes = 0\<rparr>)
     ''e1''
     \<lparr>Id_ambulance = ''A1'', Name = ''n'', WaitingList =
        [\<lparr>Id_entry = ''e1'', PatientId = ''P1'', WaitingSince = 10,
           EstimatedDurationMinutes = 15\<rparr>,
         \<lparr>Id_entry = ''e2'', PatientId = ''P2'', WaitingSince = 20,
           EstimatedDurationMinutes = 15\<rparr>]\<rparr>
   = Return
       (Some \<lparr>Id_ambulance = ''A1'', Name = ''n'', WaitingList =
          [\<lparr>Id_entry = ''e2'', PatientId = ''P2'', WaitingSince = 20,
             EstimatedDurationMinutes = 15\<rparr>,
           \<lparr>Id_entry = ''e1'', PatientId = ''P1'', WaitingSince = 30,
             EstimatedDurationMinutes = 15\<rparr>]\<rparr>)
       (Entry \<lparr>Id_entry = ''e2'', PatientId = ''P2'', WaitingSince = 20,
                 EstimatedDurationMinutes = 15\<rparr>)
       StatusOK"
  by (simp add: UpdateWaitingListEntry_def overwriteFields_def After_def zeroTime_def
      Reconcile_def Let_def)

text \<open>
  The uniqueness invariant under the operations: creating and deleting an entry keep it,
  with any reconciler that only reorders the list.
\<close>

lemma distinct_map_reorders:
  "reorders r \<Longrightarrow> distinct (map f (r l)) = distinct (map f l)"
proof -
  assume "reorders r"
  then have "mset (map f (r l)) = mset (map f l)"
    by (simp add: reorders_def)
  then show ?thesis by (rule mset_eq_imp_distinct_iff)
qed

lemma uniqueEntries_reorders: "reorders r \<Longrightarrow> uniqueEntries (r l) = uniqueEntries l"
  by (simp add: uniqueEntries_def distinct_map_reorders)

lemma Create_preserves_uniqueEntries:
  assumes "reorders r" "uniqueEntries (WaitingList ambulance)"
    and "CreateWaitingListEntry r newId now1 now2 body ambulance
           = Return (Some ambulance') content status"
  shows "uniqueEntries (WaitingList ambulance')"
proof (cases body)
  case (Inl err)
  with assms(3) show ?thesis by (simp add: CreateWaitingListEntry_def)
next
  case (Inr entry0)
  let ?e = "applyDefaults newId now1 now2 entry0"
  let ?p = "\<lambda>waiting. Id_entry ?e = Id_entry waiting \<or> PatientId ?e = PatientId waiting"
  from assms(3) Inr have noconf: "IndexFunc (WaitingList ambulance) ?p < 0"
    and a': "WaitingList ambulance' = r (WaitingList ambulance @ [?e])"
    by (auto simp: CreateWaitingListEntry_def Let_def split: if_splits)
  from noconf have "\<forall>w\<in>set (WaitingList ambulance).
      Id_entry ?e \<noteq> Id_entry w \<and> PatientId ?e \<noteq> PatientId w"
    by (simp add: IndexFunc_neg_iff)
  then have "uniqueEntries (WaitingList ambulance @ [?e])"
    using assms(2) by (auto simp: uniqueEntries_def)
  then show ?thesis
    unfolding a' by (simp add: uniqueEntries_reorders [OF assms(1)])
qed

lemma Delete_preserves_uniqueEntries:
  assumes "reorders r" "uniqueEntries (WaitingList ambulance)"
    and "DeleteWaitingListEntry r entryId ambulance = Return (Some ambulance') content status"
  shows "uniqueEntries (WaitingList ambulance')"
proof -
  let ?i = "nat (IndexFunc (WaitingList ambulance) (\<lambda>waiting. entryId = Id_entry waiting))"
  let ?l = "WaitingList ambulance"
  from assms(3) have a': "WaitingList ambulance' = r (take ?i ?l @ drop (?i + 1) ?l)"
    by (auto simp: DeleteWaitingListEntry_def Let_def split: if_splits)
  have "\<And>f :: WaitingListEntry \<Rightarrow> string.
      distinct (map f ?l) \<Longrightarrow> distinct (map f (take ?i ?l @ drop (?i + 1) ?l))"
  proof -
    fix f :: "WaitingListEntry \<Rightarrow> string"
    assume d: "distinct (map f ?l)"
    have "map f ?l = map f (take ?i ?l) @ map f (drop ?i ?l)"
      by (simp flip: map_append)
    with d have d2: "distinct (map f (take ?i ?l) @ map f (drop ?i ?l))" by simp
    have "set (drop (?i + 1) ?l) \<subseteq> set (drop ?i ?l)"
      by (simp add: set_drop_subset_set_drop)
    moreover have "distinct (map f (drop (?i + 1) ?l))"
      using d by (simp add: distinct_drop flip: drop_map)
    ultimately show "distinct (map f (take ?i ?l @ drop (?i + 1) ?l))"
      using d2 by auto
  qed
  then have "uniqueEntries (take ?i ?l @ drop (?i + 1) ?l)"
    using assms(2) unfolding uniqueEntries_def by blast
  then show ?thesis
    unfolding a' by (simp add: uniqueEntries_reorders [OF assms(1)])
qed

text \<open>
  C2 fails on the code for the update operation. The handler overwrites \<open>PatientId\<close> and
  \<open>Id\<close> without looking for another entry with the same value: on a list that satisfies
  the invariant, setting the patient id of \<^verbatim>\<open>e1\<close> to that of \<^verbatim>\<open>e2\<close> succeeds with status
  200 and leaves two entries with one patient id.
\<close>

theorem update_breaks_uniqueness:
  "uniqueEntries
     [\<lparr>Id_entry = ''e1'', PatientId = ''P1'', WaitingSince = 10,
        EstimatedDurationMinutes = 15\<rparr>,
      \<lparr>Id_entry = ''e2'', PatientId = ''P2'', WaitingSince = 20,
        EstimatedDurationMinutes = 15\<rparr>]
   \<and> UpdateWaitingListEntry Reconcile
     (Inr \<lparr>Id_entry = '''', PatientId = ''P2'', WaitingSince = 0,
            EstimatedDurationMinutes = 0\<rparr>)
     ''e1''
     \<lparr>Id_ambulance = ''A1'', Name = ''n'', WaitingList =
        [\<lparr>Id_entry = ''e1'', PatientId = ''P1'', WaitingSince = 10,
           EstimatedDurationMinutes = 15\<rparr>,
         \<lparr>Id_entry = ''e2'', PatientId = ''P2'', WaitingSince = 20,
           EstimatedDurationMinutes = 15\<rparr>]\<rparr>
   = Return
       (Some \<lparr>Id_ambulance = ''A1'', Name = ''n'', WaitingList =
          [\<lparr>Id_entry = ''e1'', PatientId = ''P2'', WaitingSince = 10,
             EstimatedDurationMinutes = 15\<rparr>,
           \<lparr>Id_entry = ''e2'', PatientId = ''P2'', WaitingSince = 20,
             EstimatedDurationMinutes = 15\<rparr>]\<rparr>)
       (Entry \<lparr>Id_entry = ''e1'', PatientId = ''P2'', WaitingSince = 10,
                 EstimatedDurationMinutes = 15\<rparr>)
       StatusOK
   \<and> \<not> uniqueEntries
     [\<lparr>Id_entry = ''e1'', PatientId = ''P2'', WaitingSince = 10,
        EstimatedDurationMinutes = 15\<rparr>,
      \<lparr>Id_entry = ''e2'', PatientId = ''P2'', WaitingSince = 20,
        EstimatedDurationMinutes = 15\<rparr>]"
  by (simp add: UpdateWaitingListEntry_def overwriteFields_def After_def zeroTime_def
      Reconcile_def Let_def uniqueEntries_def)

section \<open>Claims about the reconciler\<close>

text \<open>
  C6. For every list of entries \<open>L\<close>, reconciling twice gives the same list as
  reconciling once, and the reconciled list has the same set of pairs of \<open>Id\<close> and
  \<open>PatientId\<close> as \<open>L\<close>; indeed it has the same entries, each as often as \<open>L\<close>.
\<close>

theorem Reconcile_idempotent_identity_preserving:
  "Reconcile (Reconcile L) = Reconcile L
   \<and> set (map (\<lambda>e. (Id_entry e, PatientId e)) (Reconcile L))
       = set (map (\<lambda>e. (Id_entry e, PatientId e)) L)
   \<and> mset (Reconcile L) = mset L"
proof -
  have "Reconcile (Reconcile L) = Reconcile L"
    unfolding Reconcile_def by (rule sort_key_id_if_sorted) simp
  moreover have "mset (Reconcile L) = mset L"
    by (simp add: Reconcile_def)
  moreover have "set (Reconcile L) = set L"
    by (simp add: Reconcile_def)
  ultimately show ?thesis by simp
qed

section \<open>Claims about the document store\<close>

text \<open>\<^verbatim>\<open>ReplaceOne\<close> overwrites the first matching document, in place.\<close>

lemma replaceFirst_update:
  "\<exists>x\<in>set xs. p x \<Longrightarrow>
     \<exists>i<length xs. p (xs ! i) \<and> (\<forall>j<i. \<not> p (xs ! j)) \<and> replaceFirst p r xs = xs[i := r]"
proof (induction xs)
  case Nil
  then show ?case by simp
next
  case (Cons x xs)
  show ?case
  proof (cases "p x")
    case True
    then have "0 < length (x # xs) \<and> p ((x # xs) ! 0) \<and> (\<forall>j<0. \<not> p ((x # xs) ! j))
        \<and> replaceFirst p r (x # xs) = (x # xs)[0 := r]"
      by simp
    then show ?thesis by blast
  next
    case False
    with Cons.prems have "\<exists>y\<in>set xs. p y" by simp
    from Cons.IH [OF this] obtain i where
      i: "i < length xs" "p (xs ! i)" "\<forall>j<i. \<not> p (xs ! j)" "replaceFirst p r xs = xs[i := r]"
      by blast
    have "Suc i < length (x # xs) \<and> p ((x # xs) ! Suc i)
        \<and> (\<forall>j<Suc i. \<not> p ((x # xs) ! j))
        \<and> replaceFirst p r (x # xs) = (x # xs)[Suc i := r]"
      using i False by (auto simp: nth_Cons split: nat.splits)
    then show ?thesis by blast
  qed
qed

lemma connect_ok:
  "noTransportFailure drv \<Longrightarrow>
     \<exists>c. connect drv s = (Inr c, s\<lparr>client := Some c\<rparr>)"
  by (cases "mongo_Connect drv")
     (auto simp: noTransportFailure_def connect_def split: option.splits)

text \<open>
  C7. For every call of \<^verbatim>\<open>UpdateDocument\<close> without transport failure: if no stored
  document has the key \<open>docId\<close>, it fails with \<^verbatim>\<open>ErrNotFound\<close> and the collection is
  unchanged; otherwise it succeeds, and the first stored document with that key is
  replaced as a whole by the document given, every other document staying as it was.
  So the call fails with \<^verbatim>\<open>ErrNotFound\<close> if and only if no document with the key is
  stored.
\<close>

theorem UpdateDocument_NotFound_or_replace:
  assumes ok: "noTransportFailure drv"
  shows "if \<exists>d\<in>set (documents s). idOf d = docId
         then fst (UpdateDocument drv idOf docId document s) = None
           \<and> (\<exists>i<length (documents s).
                 idOf (documents s ! i) = docId
                 \<and> (\<forall>j<i. idOf (documents s ! j) \<noteq> docId)
                 \<and> documents (snd (UpdateDocument drv idOf docId document s))
                     = (documents s)[i := document])
         else fst (UpdateDocument drv idOf docId document s) = Some ErrNotFound
           \<and> documents (snd (UpdateDocument drv idOf docId document s)) = documents s"
proof -
  from connect_ok [OF ok, of s] obtain c where
    c: "connect drv s = (Inr c, s\<lparr>client := Some c\<rparr>)" by blast
  have fe: "findErr drv = None" and re: "replaceErr drv = None"
    using ok by (simp_all add: noTransportFailure_def)
  show ?thesis
  proof (cases "\<exists>d\<in>set (documents s). idOf d = docId")
    case True
    then obtain d where d: "find (\<lambda>d. idOf d = docId) (documents s) = Some d"
      by (cases "find (\<lambda>d. idOf d = docId) (documents s)") (auto simp: find_None_iff)
    have res: "UpdateDocument drv idOf docId document s =
        (None, s\<lparr>client := Some c, documents :=
           replaceFirst (\<lambda>d. idOf d = docId) document (documents s)\<rparr>)"
      using c fe re d by (simp add: UpdateDocument_def FindOne_def ReplaceOne_def)
    from replaceFirst_update [OF True, of document] res True show ?thesis
      by simp
  next
    case False
    then have d: "find (\<lambda>d. idOf d = docId) (documents s) = None"
      by (simp add: find_None_iff)
    have "UpdateDocument drv idOf docId document s = (Some ErrNotFound, s\<lparr>client := Some c\<rparr>)"
      using c fe d by (simp add: UpdateDocument_def FindOne_def)
    with False show ?thesis by simp
  qed
qed

text \<open>C7 at a collection of two documents: a key that is stored, and one that is not.\<close>

theorem UpdateDocument_NotFound_or_replace_witness:
  "UpdateDocument
     \<lparr>mongo_Connect = Inr 7, findErr = None, decodeErr = None, replaceErr = None\<rparr>
     Id_ambulance ''A2''
     \<lparr>Id_ambulance = ''A2'', Name = ''new'', WaitingList = []\<rparr>
     \<lparr>client = None, documents =
        [\<lparr>Id_ambulance = ''A1'', Name = ''one'', WaitingList = []\<rparr>,
         \<lparr>Id_ambulance = ''A2'', Name = ''two'', WaitingList = []\<rparr>]\<rparr>
   = (None, \<lparr>client = Some 7, documents =
        [\<lparr>Id_ambulance = ''A1'', Name = ''one'', WaitingList = []\<rparr>,
         \<lparr>Id_ambulance = ''A2'', Name = ''new'', WaitingList = []\<rparr>]\<rparr>)
   \<and> UpdateDocument
     \<lparr>mongo_Connect = Inr 7, findErr = None, decodeErr = None, replaceErr = None\<rparr>
     Id_ambulance ''A3''
     \<lparr>Id_ambulance = ''A3'', Name = ''new'', WaitingList = []\<rparr>
     \<lparr>client = None, documents =
        [\<lparr>Id_ambulance = ''A1'', Name = ''one'', WaitingList = []\<rparr>,
         \<lparr>Id_ambulance = ''A2'', Name = ''two'', WaitingList = []\<rparr>]\<rparr>
   = (Some ErrNotFound, \<lparr>client = Some 7, documents =
        [\<lparr>Id_ambulance = ''A1'', Name = ''one'', WaitingList = []\<rparr>,
         \<lparr>Id_ambulance = ''A2'', Name = ''two'', WaitingList = []\<rparr>]\<rparr>)"
  using UpdateDocument_NotFound_or_replace
    [of "\<lparr>mongo_Connect = Inr 7, findErr = None, decodeErr = None, replaceErr = None\<rparr>"
        "\<lparr>client = None, documents =
          [\<lparr>Id_ambulance = ''A1'', Name = ''one'', WaitingList = []\<rparr>,
           \<lparr>Id_ambulance = ''A2'', Name = ''two'', WaitingList = []\<rparr>]\<rparr>"
        Id_ambulance "''A2''"
        "\<lparr>Id_ambulance = ''A2'', Name = ''new'', WaitingList = []\<rparr>"]
  by (simp add: noTransportFailure_def UpdateDocument_def connect_def FindOne_def
      ReplaceOne_def)

section \<open>Claims about the connection manager\<close>

text \<open>The invariant holds at the start and is kept by every step of every caller.\<close>

lemma manager_inv_init: "manager_inv manager_init"
  by (simp add: manager_inv_def manager_init_def)

lemma lock_same:
  assumes "\<forall>u. inLock (f u) = (l = Some u)" "inLock p = inLock (f t)"
  shows "\<forall>u. inLock ((f(t := p)) u) = (l = Some u)"
  using assms by simp

lemma lock_acquire:
  assumes "\<forall>u. inLock (f u) = (None = Some u)"
  shows "\<forall>u. inLock ((f(t := AtLockedLoad)) u) = (Some t = Some u)"
  using assms by auto

lemma lock_release:
  assumes "\<forall>u. inLock (f u) = (Some t = Some u)"
  shows "\<forall>u. inLock ((f(t := Returned r)) u) = (None = Some u)"
  using assms by auto

lemma pc_ok_same:
  assumes "\<forall>u. pc_ok ch made (f u)" "pc_ok ch made p"
  shows "\<forall>u. pc_ok ch made ((f(t := p)) u)"
  using assms by simp

lemma pc_ok_outside:
  assumes "\<not> inLock p" "pc_ok None made p"
  shows "pc_ok ch' made' p"
proof (cases p)
  case (Returned r)
  with assms(2) show ?thesis by (cases r) simp_all
qed (use assms in simp_all)

lemma pc_ok_change:
  assumes "\<forall>u. inLock (f u) = (Some t = Some u)" "\<forall>u. pc_ok None made (f u)"
    "pc_ok ch' made' p"
  shows "\<forall>u. pc_ok ch' made' ((f(t := p)) u)"
proof
  fix u
  show "pc_ok ch' made' ((f(t := p)) u)"
  proof (cases "u = t")
    case True
    with assms(3) show ?thesis by simp
  next
    case False
    with assms(1) have out: "\<not> inLock (f u)" by auto
    from assms(2) have "pc_ok None made (f u)" by simp
    with out have "pc_ok ch' made' (f u)" by (rule pc_ok_outside)
    with False show ?thesis by simp
  qed
qed

lemma manager_inv_step:
  assumes inv: "manager_inv s"
  shows "manager_inv (connect_step connectErr t s)"
proof -
  from inv have lk: "\<forall>u. inLock (callers s u) = (lockedBy s = Some u)"
    and ok: "\<forall>u. pc_ok (cached s) (constructed s) (callers s u)"
    and free: "lockedBy s = None \<Longrightarrow>
      constructed s = (case cached s of None \<Rightarrow> [] | Some c \<Rightarrow> [c])"
    and len: "length (constructed s) \<le> calls s"
    by (simp_all add: manager_inv_def)
  from ok have okt: "pc_ok (cached s) (constructed s) (callers s t)" by simp
  from lk have lkt: "inLock (callers s t) = (lockedBy s = Some t)" by simp
  show ?thesis
  proof (cases "callers s t")
    case AtLoad
    show ?thesis
    proof (cases "cached s")
      case None
      have st: "connect_step connectErr t s = s\<lparr>callers := (callers s)(t := AtLock)\<rparr>"
        using AtLoad None by (simp add: connect_step_def)
      have "\<forall>u. inLock (((callers s)(t := AtLock)) u) = (lockedBy s = Some u)"
        by (rule lock_same [OF lk]) (simp add: AtLoad)
      moreover have "\<forall>u. pc_ok (cached s) (constructed s) (((callers s)(t := AtLock)) u)"
        by (rule pc_ok_same [OF ok]) simp
      ultimately show ?thesis
        unfolding st manager_inv_def using inv by (simp add: manager_inv_def split: option.splits)
    next
      case (Some c)
      have st: "connect_step connectErr t s
          = s\<lparr>callers := (callers s)(t := Returned (Inr c))\<rparr>"
        using AtLoad Some by (simp add: connect_step_def)
      have "\<forall>u. inLock (((callers s)(t := Returned (Inr c))) u) = (lockedBy s = Some u)"
        by (rule lock_same [OF lk]) (simp add: AtLoad)
      moreover have "\<forall>u. pc_ok (cached s) (constructed s)
          (((callers s)(t := Returned (Inr c))) u)"
        by (rule pc_ok_same [OF ok]) (simp add: Some)
      ultimately show ?thesis
        unfolding st manager_inv_def using inv by (simp add: manager_inv_def split: option.splits)
    qed
  next
    case AtLock
    show ?thesis
    proof (cases "lockedBy s")
      case (Some u)
      with AtLock inv show ?thesis by (simp add: connect_step_def)
    next
      case None
      have st: "connect_step connectErr t s
          = s\<lparr>lockedBy := Some t, callers := (callers s)(t := AtLockedLoad)\<rparr>"
        using AtLock None by (simp add: connect_step_def)
      from lk None have "\<forall>u. inLock (callers s u) = (None = Some u)" by simp
      then have "\<forall>u. inLock (((callers s)(t := AtLockedLoad)) u) = (Some t = Some u)"
        by (rule lock_acquire)
      moreover have "\<forall>u. pc_ok (cached s) (constructed s)
          (((callers s)(t := AtLockedLoad)) u)"
        by (rule pc_ok_same [OF ok]) (simp add: free [OF None])
      ultimately show ?thesis
        unfolding st manager_inv_def using len by (simp split: option.splits)
    qed
  next
    case AtLockedLoad
    with lkt have own: "lockedBy s = Some t" by simp
    from okt AtLockedLoad
    have ag: "constructed s = (case cached s of None \<Rightarrow> [] | Some c \<Rightarrow> [c])" by simp
    show ?thesis
    proof (cases "cached s")
      case None
      have st: "connect_step connectErr t s = s\<lparr>callers := (callers s)(t := AtConnect)\<rparr>"
        using AtLockedLoad None by (simp add: connect_step_def)
      have "\<forall>u. inLock (((callers s)(t := AtConnect)) u) = (lockedBy s = Some u)"
        by (rule lock_same [OF lk]) (simp add: AtLockedLoad)
      moreover have "\<forall>u. pc_ok (cached s) (constructed s) (((callers s)(t := AtConnect)) u)"
        by (rule pc_ok_same [OF ok]) (use ag None in simp)
      ultimately show ?thesis
        unfolding st manager_inv_def using len own by (simp split: option.splits)
    next
      case (Some c)
      have st: "connect_step connectErr t s
          = s\<lparr>callers := (callers s)(t := AtUnlock (Inr c))\<rparr>"
        using AtLockedLoad Some by (simp add: connect_step_def)
      have "\<forall>u. inLock (((callers s)(t := AtUnlock (Inr c))) u) = (lockedBy s = Some u)"
        by (rule lock_same [OF lk]) (simp add: AtLockedLoad)
      moreover have "\<forall>u. pc_ok (cached s) (constructed s)
          (((callers s)(t := AtUnlock (Inr c))) u)"
        by (rule pc_ok_same [OF ok]) (use ag Some in simp)
      ultimately show ?thesis
        unfolding st manager_inv_def using len own by (simp split: option.splits)
    qed
  next
    case AtConnect
    with lkt have own: "lockedBy s = Some t" by simp
    from okt AtConnect have e: "cached s = None" "constructed s = []" by simp_all
    from lk own have lk': "\<forall>u. inLock (callers s u) = (Some t = Some u)" by simp
    from ok e have ok': "\<forall>u. pc_ok None [] (callers s u)" by simp
    show ?thesis
    proof (cases "connectErr (calls s)")
      case (Some err)
      have st: "connect_step connectErr t s
          = s\<lparr>callers := (callers s)(t := AtUnlock (Inl err)), calls := calls s + 1\<rparr>"
        using AtConnect Some by (simp add: connect_step_def)
      have "\<forall>u. inLock (((callers s)(t := AtUnlock (Inl err))) u) = (lockedBy s = Some u)"
        by (rule lock_same [OF lk]) (simp add: AtConnect)
      moreover have "\<forall>u. pc_ok (cached s) (constructed s)
          (((callers s)(t := AtUnlock (Inl err))) u)"
        by (rule pc_ok_same [OF ok]) (use e in simp)
      ultimately show ?thesis
        unfolding st manager_inv_def using len own by (simp split: option.splits)
    next
      case None
      have st: "connect_step connectErr t s
          = s\<lparr>callers := (callers s)(t := AtStore (calls s)), calls := calls s + 1,
              constructed := constructed s @ [calls s]\<rparr>"
        using AtConnect None by (simp add: connect_step_def)
      have "\<forall>u. inLock (((callers s)(t := AtStore (calls s))) u) = (lockedBy s = Some u)"
        by (rule lock_same [OF lk]) (simp add: AtConnect)
      moreover have "\<forall>u. pc_ok None [calls s] (((callers s)(t := AtStore (calls s))) u)"
        by (rule pc_ok_change [OF lk' ok']) simp
      ultimately show ?thesis
        unfolding st manager_inv_def using own e by (simp split: option.splits)
    qed
  next
    case (AtStore c)
    with lkt have own: "lockedBy s = Some t" by simp
    from okt AtStore have e: "cached s = None" "constructed s = [c]" by simp_all
    from lk own have lk': "\<forall>u. inLock (callers s u) = (Some t = Some u)" by simp
    from ok e have ok': "\<forall>u. pc_ok None [c] (callers s u)" by simp
    have st: "connect_step connectErr t s
        = s\<lparr>cached := Some c, callers := (callers s)(t := AtUnlock (Inr c))\<rparr>"
      using AtStore by (simp add: connect_step_def)
    have "\<forall>u. inLock (((callers s)(t := AtUnlock (Inr c))) u) = (lockedBy s = Some u)"
      by (rule lock_same [OF lk]) (simp add: AtStore)
    moreover have "\<forall>u. pc_ok (Some c) [c] (((callers s)(t := AtUnlock (Inr c))) u)"
      by (rule pc_ok_change [OF lk' ok']) simp
    ultimately show ?thesis
      unfolding st manager_inv_def using own e len by (simp split: option.splits)
  next
    case (AtUnlock r)
    with lkt have own: "lockedBy s = Some t" by simp
    from okt AtUnlock
    have ag: "constructed s = (case cached s of None \<Rightarrow> [] | Some c \<Rightarrow> [c])"
      and rr: "case r of Inl err \<Rightarrow> True | Inr c \<Rightarrow> cached s = Some c"
      by simp_all
    from lk own have lk': "\<forall>u. inLock (callers s u) = (Some t = Some u)" by simp
    have st: "connect_step connectErr t s
        = s\<lparr>lockedBy := None, callers := (callers s)(t := Returned r)\<rparr>"
      using AtUnlock by (simp add: connect_step_def)
    have "\<forall>u. inLock (((callers s)(t := Returned r)) u) = (None = Some u)"
      by (rule lock_release [OF lk'])
    moreover have "\<forall>u. pc_ok (cached s) (constructed s) (((callers s)(t := Returned r)) u)"
      by (rule pc_ok_same [OF ok]) (use rr in simp)
    ultimately show ?thesis
      unfolding st manager_inv_def using ag len by (simp split: option.splits)
  next
    case (Returned r)
    with inv show ?thesis
      by (simp add: connect_step_def)
  qed
qed

lemma manager_inv_run:
  "manager_inv s \<Longrightarrow> manager_inv (connect_run connectErr schedule s)"
  unfolding connect_run_def
  by (induction schedule arbitrary: s) (simp_all add: manager_inv_step)

lemma calls_constructed_step:
  assumes "\<forall>k. connectErr k = None" "calls s = length (constructed s)"
  shows "calls (connect_step connectErr t s) = length (constructed (connect_step connectErr t s))"
  using assms
  by (cases "callers s t")
     (simp_all add: connect_step_def split: option.splits)

lemma calls_constructed_run:
  assumes "\<forall>k. connectErr k = None"
  shows "calls s = length (constructed s) \<Longrightarrow>
     calls (connect_run connectErr schedule s)
       = length (constructed (connect_run connectErr schedule s))"
  unfolding connect_run_def
  by (induction schedule arbitrary: s) (simp_all add: calls_constructed_step [OF assms])

lemma manager_inv_constructed:
  assumes inv: "manager_inv s"
  shows "length (constructed s) \<le> 1"
proof (cases "lockedBy s")
  case None
  with inv have "constructed s = (case cached s of None \<Rightarrow> [] | Some c \<Rightarrow> [c])"
    by (simp add: manager_inv_def)
  then show ?thesis by (simp split: option.splits)
next
  case (Some t)
  with inv have inl: "inLock (callers s t)" by (simp add: manager_inv_def)
  from inv have "pc_ok (cached s) (constructed s) (callers s t)"
    by (simp add: manager_inv_def)
  with inl show ?thesis
    by (cases "callers s t") (simp_all split: option.splits)
qed

lemma manager_inv_returned:
  assumes inv: "manager_inv s" and ret: "callers s t = Returned (Inr c)"
  shows "constructed s = [c] \<and> cached s = Some c"
proof -
  from inv have "pc_ok (cached s) (constructed s) (callers s t)"
    by (simp add: manager_inv_def)
  with ret have c: "cached s = Some c" by simp
  have "constructed s = [c]"
  proof (cases "lockedBy s")
    case None
    with inv c show ?thesis by (simp add: manager_inv_def)
  next
    case (Some u)
    with inv have inl: "inLock (callers s u)" by (simp add: manager_inv_def)
    from inv have "pc_ok (cached s) (constructed s) (callers s u)"
      by (simp add: manager_inv_def)
    with inl c show ?thesis
      by (cases "callers s u") simp_all
  qed
  with c show ?thesis by simp
qed

text \<open>
  No caller is ever stuck: from any state of an execution, once the holder of the mutex
  has taken its remaining steps, a caller returns within six steps of its own.
\<close>

lemma connect_run_append:
  "connect_run connectErr (xs @ ys) s = connect_run connectErr ys (connect_run connectErr xs s)"
  by (simp add: connect_run_def)

lemma holder_releases:
  assumes "lockedBy s = Some u" "inLock (callers s u)"
  shows "lockedBy (connect_run connectErr [u, u, u, u] s) = None"
proof (cases "callers s u")
  case AtLockedLoad
  then show ?thesis
    by (cases "cached s"; cases "connectErr (calls s)")
       (simp_all add: connect_run_def connect_step_def)
next
  case AtConnect
  then show ?thesis
    by (cases "connectErr (calls s)")
       (simp_all add: connect_run_def connect_step_def)
next
  case (AtStore c)
  then show ?thesis
    by (simp add: connect_run_def connect_step_def)
next
  case (AtUnlock r)
  then show ?thesis
    by (simp add: connect_run_def connect_step_def)
qed (use assms(2) in simp_all)

lemma free_caller_returns:
  assumes "lockedBy s = None" "\<not> inLock (callers s t)"
  shows "\<exists>r. callers (connect_run connectErr [t, t, t, t, t, t] s) t = Returned r"
proof (cases "callers s t")
  case AtLoad
  with assms(1) show ?thesis
    by (cases "cached s"; cases "connectErr (calls s)")
       (simp_all add: connect_run_def connect_step_def)
next
  case AtLock
  with assms(1) show ?thesis
    by (cases "cached s"; cases "connectErr (calls s)")
       (simp_all add: connect_run_def connect_step_def)
next
  case (Returned r)
  then show ?thesis
    by (simp add: connect_run_def connect_step_def)
qed (use assms(2) in simp_all)

lemma caller_can_return:
  assumes inv: "manager_inv s"
  shows "\<exists>schedule r. callers (connect_run connectErr schedule s) t = Returned r"
proof (cases "lockedBy s")
  case None
  with inv have "\<not> inLock (callers s t)" by (simp add: manager_inv_def)
  from free_caller_returns [OF None this] show ?thesis by blast
next
  case (Some u)
  with inv have inl: "inLock (callers s u)" by (simp add: manager_inv_def)
  let ?s1 = "connect_run connectErr [u, u, u, u] s"
  have free: "lockedBy ?s1 = None" by (rule holder_releases [OF Some inl])
  have "manager_inv ?s1" by (rule manager_inv_run [OF inv])
  with free have "\<not> inLock (callers ?s1 t)" by (simp add: manager_inv_def)
  from free_caller_returns [OF free this] obtain r where
    "callers (connect_run connectErr [t, t, t, t, t, t] ?s1) t = Returned r" by blast
  then have "callers (connect_run connectErr ([u, u, u, u] @ [t, t, t, t, t, t]) s) t
      = Returned r"
    by (simp only: connect_run_append)
  then show ?thesis by blast
qed

text \<open>
  A caller that runs \<^verbatim>\<open>connect\<close> alone, with the mutex free, returns within six steps what the
  sequential \<^verbatim>\<open>connect\<close> of the document store returns, and leaves the same cache.
\<close>

lemma connect_alone:
  assumes "callers s t = AtLoad" "lockedBy s = None"
  shows "callers (connect_run connectErr [t, t, t, t, t, t] s) t
           = Returned (fst (connect
               \<lparr>mongo_Connect = (case connectErr (calls s) of
                    Some err \<Rightarrow> Inl err | None \<Rightarrow> Inr (calls s)),
                 findErr = None, decodeErr = None, replaceErr = None\<rparr>
               \<lparr>client = cached s, documents = docs\<rparr>))
         \<and> cached (connect_run connectErr [t, t, t, t, t, t] s)
           = client (snd (connect
               \<lparr>mongo_Connect = (case connectErr (calls s) of
                    Some err \<Rightarrow> Inl err | None \<Rightarrow> Inr (calls s)),
                 findErr = None, decodeErr = None, replaceErr = None\<rparr>
               \<lparr>client = cached s, documents = docs\<rparr>))
         \<and> lockedBy (connect_run connectErr [t, t, t, t, t, t] s) = None"
proof (cases "cached s")
  case (Some c)
  with assms show ?thesis
    by (simp add: connect_run_def connect_step_def connect_def)
next
  case None
  with assms show ?thesis
    by (cases "connectErr (calls s)")
       (simp_all add: connect_run_def connect_step_def connect_def)
qed

text \<open>
  C8. In every interleaving of the steps of any number of callers of \<^verbatim>\<open>connect\<close> on one
  manager whose cache is empty at the start, with no \<^verbatim>\<open>Disconnect\<close> in between, at most one
  connection is constructed; every caller that has returned a handle has returned the
  handle of that one construction, which is the cached one; and when no call of
  \<^verbatim>\<open>mongo.Connect\<close> fails, \<^verbatim>\<open>mongo.Connect\<close> is called at most once. (After a failed
  call the cache is still empty and a later caller calls \<^verbatim>\<open>mongo.Connect\<close> again.)
  Every caller \<open>t\<close> can still return: some continuation of the execution has it returned.
\<close>

theorem connect_constructs_once:
  "length (constructed (connect_run connectErr schedule manager_init)) \<le> 1
   \<and> (\<forall>t c. callers (connect_run connectErr schedule manager_init) t = Returned (Inr c) \<longrightarrow>
         constructed (connect_run connectErr schedule manager_init) = [c]
         \<and> cached (connect_run connectErr schedule manager_init) = Some c)
   \<and> ((\<forall>k. connectErr k = None) \<longrightarrow>
         calls (connect_run connectErr schedule manager_init) \<le> 1)
   \<and> (\<exists>rest r. callers (connect_run connectErr (schedule @ rest) manager_init) t
         = Returned r)"
proof -
  let ?s = "connect_run connectErr schedule manager_init"
  have inv: "manager_inv ?s"
    by (rule manager_inv_run [OF manager_inv_init])
  have one: "length (constructed ?s) \<le> 1"
    by (rule manager_inv_constructed [OF inv])
  have same: "\<forall>t c. callers ?s t = Returned (Inr c) \<longrightarrow>
      constructed ?s = [c] \<and> cached ?s = Some c"
    using manager_inv_returned [OF inv] by blast
  have "calls ?s \<le> 1" if ok: "\<forall>k. connectErr k = None"
  proof -
    have "calls ?s = length (constructed ?s)"
      by (rule calls_constructed_run [OF ok]) (simp add: manager_init_def)
    with one show ?thesis by simp
  qed
  moreover have "\<exists>rest r. callers (connect_run connectErr (schedule @ rest) manager_init) t
      = Returned r"
    using caller_can_return [OF inv, of connectErr t] by (simp add: connect_run_append)
  ultimately show ?thesis using one same by blast
qed

text \<open>
  C8 at an execution of four callers: three find the cache empty and queue at the mutex,
  the first constructs the connection, the others find it under the lock, and a late
  caller finds it at once. In a second execution the first call of \<^verbatim>\<open>mongo.Connect\<close>
  fails, its caller returns the error, and the next caller constructs the connection.
\<close>

theorem connect_constructs_once_witness:
  "callers (connect_run (\<lambda>k. None) [0, 1, 2, 0, 1, 0, 0, 2, 0, 0, 1, 1, 1, 2, 2, 2, 3]
      manager_init) 0 = Returned (Inr 0)
   \<and> callers (connect_run (\<lambda>k. None) [0, 1, 2, 0, 1, 0, 0, 2, 0, 0, 1, 1, 1, 2, 2, 2, 3]
      manager_init) 1 = Returned (Inr 0)
   \<and> callers (connect_run (\<lambda>k. None) [0, 1, 2, 0, 1, 0, 0, 2, 0, 0, 1, 1, 1, 2, 2, 2, 3]
      manager_init) 2 = Returned (Inr 0)
   \<and> callers (connect_run (\<lambda>k. None) [0, 1, 2, 0, 1, 0, 0, 2, 0, 0, 1, 1, 1, 2, 2, 2, 3]
      manager_init) 3 = Returned (Inr 0)
   \<and> constructed (connect_run (\<lambda>k. None) [0, 1, 2, 0, 1, 0, 0, 2, 0, 0, 1, 1, 1, 2, 2, 2, 3]
      manager_init) = [0]
   \<and> cached (connect_run (\<lambda>k. None) [0, 1, 2, 0, 1, 0, 0, 2, 0, 0, 1, 1, 1, 2, 2, 2, 3]
      manager_init) = Some 0
   \<and> calls (connect_run (\<lambda>k. None) [0, 1, 2, 0, 1, 0, 0, 2, 0, 0, 1, 1, 1, 2, 2, 2, 3]
      manager_init) \<le> 1
   \<and> callers (connect_run (\<lambda>k. if k = 0 then Some ''unreachable'' else None)
      [0, 0, 0, 0, 0, 1, 1, 1, 1, 1, 1] manager_init) 0 = Returned (Inl ''unreachable'')
   \<and> callers (connect_run (\<lambda>k. if k = 0 then Some ''unreachable'' else None)
      [0, 0, 0, 0, 0, 1, 1, 1, 1, 1, 1] manager_init) 1 = Returned (Inr 1)
   \<and> constructed (connect_run (\<lambda>k. if k = 0 then Some ''unreachable'' else None)
      [0, 0, 0, 0, 0, 1, 1, 1, 1, 1, 1] manager_init) = [1]
   \<and> calls (connect_run (\<lambda>k. if k = 0 then Some ''unreachable'' else None)
      [0, 0, 0, 0, 0, 1, 1, 1, 1, 1, 1] manager_init) = 2"
proof -
  let ?s = "connect_run (\<lambda>k. None) [0, 1, 2, 0, 1, 0, 0, 2, 0, 0, 1, 1, 1, 2, 2, 2, 3]
      manager_init"
  let ?s' = "connect_run (\<lambda>k. if k = 0 then Some ''unreachable'' else None)
      [0, 0, 0, 0, 0, 1, 1, 1, 1, 1, 1] manager_init"
  have r: "callers ?s 0 = Returned (Inr 0)" "callers ?s 1 = Returned (Inr 0)"
    "callers ?s 2 = Returned (Inr 0)" "callers ?s 3 = Returned (Inr 0)"
    by (simp_all add: connect_run_def connect_step_def manager_init_def)
  have r': "callers ?s' 0 = Returned (Inl ''unreachable'')" "callers ?s' 1 = Returned (Inr 1)"
    "calls ?s' = 2"
    by (simp_all add: connect_run_def connect_step_def manager_init_def)
  from connect_constructs_once
    [of "\<lambda>k. None" "[0, 1, 2, 0, 1, 0, 0, 2, 0, 0, 1, 1, 1, 2, 2, 2, 3]"]
    connect_constructs_once
    [of "\<lambda>k. if k = 0 then Some ''unreachable'' else None"
        "[0, 0, 0, 0, 0, 1, 1, 1, 1, 1, 1]"] r r'
  show ?thesis by simp
qed

end
